theory Spec2Isabelle
  imports Complex_Main "HOL-Library.Sublist" "HOL-Library.Log_Nat"
begin

section \<open>JavaScript strings and arrays\<close>

text \<open>
  A JavaScript string is modelled as a \<^typ>\<open>string\<close>, one \<^typ>\<open>char\<close> per code unit.
  A \<^typ>\<open>char\<close> has eight bits, so the model covers the code units 0 to 255 (Latin-1);
  the functions below are \<open>String.prototype.toLowerCase\<close>, \<open>trim\<close>, \<open>startsWith\<close>
  and \<open>includes\<close> (here \<open>includes_str\<close>) on that range.
\<close>

definition toLowerChar :: "char \<Rightarrow> char" where
  "toLowerChar c =
     (let n = (of_char c :: nat)
      in if (65 \<le> n \<and> n \<le> 90) \<or> (192 \<le> n \<and> n \<le> 214) \<or> (216 \<le> n \<and> n \<le> 222)
         then char_of (n + 32) else c)"

definition toLowerCase :: "string \<Rightarrow> string" where
  "toLowerCase s = map toLowerChar s"

definition isWhiteSpace :: "char \<Rightarrow> bool" where
  \<comment> \<open>TAB, LF, VT, FF, CR, SPACE and NO-BREAK SPACE: what \<open>trim\<close> strips, below 256.\<close>
  "isWhiteSpace c = ((of_char c :: nat) \<in> {9, 10, 11, 12, 13, 32, 160})"

definition trim :: "string \<Rightarrow> string" where
  "trim s = rev (dropWhile isWhiteSpace (rev (dropWhile isWhiteSpace s)))"

definition startsWith :: "string \<Rightarrow> string \<Rightarrow> bool" where
  "startsWith s q = prefix q s"

definition includes_str :: "string \<Rightarrow> string \<Rightarrow> bool" where
  "includes_str s q = sublist q s"

text \<open>
  The decimal digits of an integer from 0 on, and \<open>Number.prototype.toString\<close> on a
  number whose value is an integer: below \<open>2^53\<close> in magnitude it prints the sign
  and the decimal digits of the value. From \<open>2^53\<close> on JavaScript prints the shortest
  digits that identify the double, filled up with zeros, and from \<open>10^21\<close> on an
  exponent; such a number is outside the model (\<open>None\<close>).
\<close>

definition digit_char :: "int \<Rightarrow> char" where
  "digit_char d = char_of (48 + d)"

function digits_of :: "int \<Rightarrow> string" where
  "digits_of n =
     (if n < 10 then [digit_char n] else digits_of (n div 10) @ [digit_char (n mod 10)])"
  by pat_completeness auto
termination
  by (relation "measure nat") auto

declare digits_of.simps [simp del]

definition Number_toString :: "int \<Rightarrow> string option" where
  "Number_toString i =
     (if \<bar>i\<bar> < 2 ^ 53
      then Some (if i < 0 then CHR ''-'' # digits_of (- i) else digits_of i)
      else None)"

text \<open>
  \<open>xs.slice(0, end)\<close> for an integer \<open>end\<close> (here \<open>fin\<close>): a negative one counts
  from the end of the array.
\<close>

definition slice0 :: "'a list \<Rightarrow> int \<Rightarrow> 'a list" where
  "slice0 xs fin =
     (let len = int (length xs);
          final = (if fin < 0 then max (len + fin) 0 else min fin len)
      in take (nat final) xs)"

text \<open>
  \<open>xs.sort(cmp)\<close>: the sort of ECMAScript 2019 is stable, and for a consistent comparator
  its result is the one of a stable insertion sort. An element goes before the first
  element it does not compare greater than.
\<close>

fun insert_cmp :: "('a \<Rightarrow> 'a \<Rightarrow> int) \<Rightarrow> 'a \<Rightarrow> 'a list \<Rightarrow> 'a list" where
  "insert_cmp cmp x [] = [x]"
| "insert_cmp cmp x (y # ys) =
     (if cmp x y \<le> 0 then x # y # ys else y # insert_cmp cmp x ys)"

definition js_sort :: "('a \<Rightarrow> 'a \<Rightarrow> int) \<Rightarrow> 'a list \<Rightarrow> 'a list" where
  "js_sort cmp xs = foldr (insert_cmp cmp) xs []"

text \<open>
  A \<open>Set\<close> keeps its elements in insertion order; \<open>add\<close> of an element already present
  changes nothing. \<open>Array.from\<close> of the set is the list itself.
\<close>

definition set_add :: "'a list \<Rightarrow> 'a \<Rightarrow> 'a list" where
  "set_add s x = (if x \<in> set s then s else s @ [x])"


section \<open>The catalog and the search index (search.js)\<close>

text \<open>
  The fields of a track and of an album that the search module reads. An absent
  \<open>album\<close> of a track is \<open>None\<close>.
\<close>

record track =
  track_id :: string
  track_title :: string
  track_artist :: string
  track_album :: "string option"

record album =
  album_id :: string
  album_title :: string
  album_artist :: string

text \<open>
  A field of the catalog object that should hold an array: it is missing, or holds
  a value that is not an array, or holds an array.
\<close>

datatype 'a field = Missing | NotArray | IsArray "'a list"

record catalog =
  cat_tracks :: "track field"
  cat_albums :: "album field"

text \<open>
  The entries of the index. \<open>score\<close> is the property that \<open>search\<close> assigns to an entry;
  an entry that no search has matched has none.
\<close>

record track_entry =
  te_id :: string
  te_title :: string
  te_artist :: string
  te_album :: string
  te_original :: track
  te_score :: "int option"

record album_entry =
  ae_id :: string
  ae_title :: string
  ae_artist :: string
  ae_original :: album
  ae_score :: "int option"

record index =
  idx_tracks :: "track_entry list"
  idx_albums :: "album_entry list"
  idx_artists :: "string list"

definition index_track :: "track \<Rightarrow> track_entry" where
  "index_track t =
     \<lparr>te_id = track_id t,
      te_title = toLowerCase (track_title t),
      te_artist = toLowerCase (track_artist t),
      te_album = toLowerCase (case track_album t of None \<Rightarrow> [] | Some a \<Rightarrow> a),
      te_original = t,
      te_score = None\<rparr>"

definition index_album :: "album \<Rightarrow> album_entry" where
  "index_album a =
     \<lparr>ae_id = album_id a,
      ae_title = toLowerCase (album_title a),
      ae_artist = toLowerCase (album_artist a),
      ae_original = a,
      ae_score = None\<rparr>"

definition add_track :: "index \<Rightarrow> track \<Rightarrow> index" where
  "add_track ix t =
     ix\<lparr>idx_tracks := idx_tracks ix @ [index_track t],
        idx_artists := set_add (idx_artists ix) (track_artist t)\<rparr>"

definition add_album :: "index \<Rightarrow> album \<Rightarrow> index" where
  "add_album ix a =
     ix\<lparr>idx_albums := idx_albums ix @ [index_album a],
        idx_artists := set_add (idx_artists ix) (album_artist a)\<rparr>"

definition empty_index :: index where
  "empty_index = \<lparr>idx_tracks = [], idx_albums = [], idx_artists = []\<rparr>"

definition buildIndex :: "catalog \<Rightarrow> index" where
  "buildIndex c =
     (let ix1 = (case cat_tracks c of IsArray ts \<Rightarrow> foldl add_track empty_index ts
                 | _ \<Rightarrow> empty_index);
          ix2 = (case cat_albums c of IsArray as \<Rightarrow> foldl add_album ix1 as
                 | _ \<Rightarrow> ix1)
      in ix2)"


section \<open>The query evaluator\<close>

record options =
  opt_limit :: "int option"
  opt_delay :: "int option"

record results =
  res_tracks :: "track list"
  res_albums :: "album list"
  res_artists :: "string list"

definition no_results :: results where
  "no_results = \<lparr>res_tracks = [], res_albums = [], res_artists = []\<rparr>"

definition track_matches :: "string \<Rightarrow> track_entry \<Rightarrow> bool" where
  "track_matches q t \<longleftrightarrow>
     includes_str (te_title t) q \<or> includes_str (te_artist t) q \<or> includes_str (te_album t) q"

definition album_matches :: "string \<Rightarrow> album_entry \<Rightarrow> bool" where
  "album_matches q a \<longleftrightarrow> includes_str (ae_title a) q \<or> includes_str (ae_artist a) q"

definition track_score :: "string \<Rightarrow> track_entry \<Rightarrow> int" where
  "track_score q m =
     (let score = 0;
          score = (if startsWith (te_title m) q then score + 100
                   else if includes_str (te_title m) q then score + 50 else score);
          score = (if startsWith (te_artist m) q then score + 80
                   else if includes_str (te_artist m) q then score + 40 else score);
          score = (if includes_str (te_album m) q then score + 20 else score)
      in score)"

definition album_score :: "string \<Rightarrow> album_entry \<Rightarrow> int" where
  "album_score q m =
     (let score = 0;
          score = (if startsWith (ae_title m) q then score + 100
                   else if includes_str (ae_title m) q then score + 50 else score);
          score = (if startsWith (ae_artist m) q then score + 80
                   else if includes_str (ae_artist m) q then score + 40 else score)
      in score)"

text \<open>
  The two \<open>forEach\<close> loops assign \<open>score\<close> to the matching entries. The entries are
  the objects that the index holds, so the index shows the assignment afterwards.
  \<open>search\<close> assigns to no property of a record of the catalog: a record is a value
  here, and \<open>original\<close> of an entry holds it.
\<close>

definition score_track :: "string \<Rightarrow> track_entry \<Rightarrow> track_entry" where
  "score_track q m = m\<lparr>te_score := Some (track_score q m)\<rparr>"

definition score_album :: "string \<Rightarrow> album_entry \<Rightarrow> album_entry" where
  "score_album q m = m\<lparr>ae_score := Some (album_score q m)\<rparr>"

definition by_track_score :: "track_entry \<Rightarrow> track_entry \<Rightarrow> int" where
  "by_track_score a b = the (te_score b) - the (te_score a)"

definition by_album_score :: "album_entry \<Rightarrow> album_entry \<Rightarrow> int" where
  "by_album_score a b = the (ae_score b) - the (ae_score a)"

definition DEFAULT_LIMIT :: int where
  "DEFAULT_LIMIT = 50"

definition the_limit :: "options \<Rightarrow> int" where
  \<comment> \<open>\<open>options.limit || 50\<close>: a limit of 0 is falsy.\<close>
  "the_limit opts =
     (case opt_limit opts of None \<Rightarrow> DEFAULT_LIMIT
      | Some l \<Rightarrow> if l = 0 then DEFAULT_LIMIT else l)"

definition ranked_tracks :: "string \<Rightarrow> index \<Rightarrow> track_entry list" where
  "ranked_tracks q ix =
     js_sort by_track_score (map (score_track q) (filter (track_matches q) (idx_tracks ix)))"

definition ranked_albums :: "string \<Rightarrow> index \<Rightarrow> album_entry list" where
  "ranked_albums q ix =
     js_sort by_album_score (map (score_album q) (filter (album_matches q) (idx_albums ix)))"

definition scored_index :: "string \<Rightarrow> index \<Rightarrow> index" where
  "scored_index q ix =
     ix\<lparr>idx_tracks := map (\<lambda>t. if track_matches q t then score_track q t else t) (idx_tracks ix),
        idx_albums := map (\<lambda>a. if album_matches q a then score_album q a else a) (idx_albums ix)\<rparr>"

text \<open>
  \<open>search\<close> reads the module's \<open>searchIndex\<close> (\<open>None\<close> is \<open>null\<close>) and returns the
  results together with the index after the call.
\<close>

definition search :: "string \<Rightarrow> options \<Rightarrow> index option \<Rightarrow> results \<times> index option" where
  "search query opts searchIndex =
     (case searchIndex of
        None \<Rightarrow> (no_results, searchIndex)
      | Some ix \<Rightarrow>
          (let q = trim (toLowerCase query)
           in if q = [] then (no_results, searchIndex)
              else
                (let lim = the_limit opts
                 in (\<lparr>res_tracks = map te_original (slice0 (ranked_tracks q ix) lim),
                      res_albums = map ae_original (slice0 (ranked_albums q ix) lim),
                      res_artists =
                        slice0 (filter (\<lambda>artist. includes_str (toLowerCase artist) q)
                                  (idx_artists ix)) 10\<rparr>,
                     Some (scored_index q ix)))))"

definition default_options :: options where
  "default_options = \<lparr>opt_limit = None, opt_delay = None\<rparr>"



section \<open>Text highlighting (search.js)\<close>

text \<open>
  \<open>escapeHtml\<close> assigns the text to \<open>textContent\<close> of a fresh element and reads
  \<open>innerHTML\<close> back: the serialisation of a text node replaces the ampersand, the
  two angle brackets and the no-break space.
\<close>

definition htmlSpecial :: "char \<Rightarrow> bool" where
  "htmlSpecial c \<longleftrightarrow>
     c = CHR ''&'' \<or> c = CHR ''<'' \<or> c = CHR ''>'' \<or> (of_char c :: nat) = 160"

definition escapeHtmlChar :: "char \<Rightarrow> string" where
  "escapeHtmlChar c =
     (if c = CHR ''&'' then ''&amp;''
      else if c = CHR ''<'' then ''&lt;''
      else if c = CHR ''>'' then ''&gt;''
      else if (of_char c :: nat) = 160 then ''&nbsp;''
      else [c])"

definition escapeHtml :: "string \<Rightarrow> string" where
  "escapeHtml text = concat (map escapeHtmlChar text)"

definition backslash :: char where
  "backslash = CHR 0x5C"

definition regexSpecial :: "char \<Rightarrow> bool" where
  \<comment> \<open>the class \<open>[.*+?^${}()|[\]\\]\<close>\<close>
  "regexSpecial c \<longleftrightarrow>
     c \<in> {CHR ''.'', CHR ''*'', CHR ''+'', CHR ''?'', CHR ''^'', CHR ''$'', CHR ''{'', CHR ''}'',
          CHR ''('', CHR '')'', CHR ''|'', CHR ''['', CHR '']'', backslash}"

definition escapeRegex :: "string \<Rightarrow> string" where
  "escapeRegex text = concat (map (\<lambda>c. if regexSpecial c then [backslash, c] else [c]) text)"

text \<open>
  The pattern given to \<open>RegExp\<close> is a group around the escaped query. The patterns
  read here are those made of ordinary characters and of escaped special characters;
  such a pattern matches one literal string. Any other pattern is outside the model
  (\<open>None\<close>).
\<close>

fun literal_pattern :: "string \<Rightarrow> string option" where
  "literal_pattern [] = Some []"
| "literal_pattern [c] = (if c = backslash \<or> regexSpecial c then None else Some [c])"
| "literal_pattern (c # d # ds) =
     (if c = backslash
      then (if regexSpecial d then map_option ((#) d) (literal_pattern ds) else None)
      else if regexSpecial c then None
      else map_option ((#) c) (literal_pattern (d # ds)))"

text \<open>
  With the flag \<open>i\<close> two code units below 256 match when their lower-case forms are
  equal.
\<close>

definition ci_match_at :: "string \<Rightarrow> string \<Rightarrow> bool" where
  "ci_match_at lit s \<longleftrightarrow>
     length lit \<le> length s \<and> toLowerCase (take (length lit) s) = toLowerCase lit"

datatype segment = Plain char | Mark string

text \<open>
  \<open>s.replace(regex, '<mark>$1</mark>')\<close> with the flag \<open>g\<close> scans from the left and
  replaces each match; the scan goes on after the match. An empty literal matches at
  every position, also at the end of the text.
\<close>

function segments :: "string \<Rightarrow> string \<Rightarrow> segment list" where
  "segments lit s =
     (if s = [] then (if lit = [] then [Mark []] else [])
      else if lit = [] then Mark [] # Plain (hd s) # segments lit (tl s)
      else if ci_match_at lit s
           then Mark (take (length lit) s) # segments lit (drop (length lit) s)
      else Plain (hd s) # segments lit (tl s))"
  by pat_completeness auto
termination
  by (relation "measure (\<lambda>(lit, s). length s)") auto

declare segments.simps [simp del]

fun render_segment :: "segment \<Rightarrow> string" where
  "render_segment (Plain c) = [c]"
| "render_segment (Mark m) = ''<mark>'' @ m @ ''</mark>''"

fun segment_text :: "segment \<Rightarrow> string" where
  "segment_text (Plain c) = [c]"
| "segment_text (Mark m) = m"

definition render :: "segment list \<Rightarrow> string" where
  "render segs = concat (map render_segment segs)"

definition text_of :: "segment list \<Rightarrow> string" where
  "text_of segs = concat (map segment_text segs)"

text \<open>\<open>None\<close> is the \<open>SyntaxError\<close> of a pattern that \<open>RegExp\<close> would refuse.\<close>

definition highlight :: "string \<Rightarrow> string \<Rightarrow> string option" where
  "highlight text query =
     (if query = [] then Some (escapeHtml text)
      else
        (let escaped = escapeHtml text;
             q = toLowerCase (trim query)
         in case literal_pattern (escapeRegex q) of
              None \<Rightarrow> None
            | Some lit \<Rightarrow> Some (render (segments lit escaped))))"


section \<open>Debounced dispatch (search.js)\<close>

text \<open>
  The timers of the page: \<open>setTimeout\<close> arms a timer under a fresh identifier,
  \<open>clearTimeout\<close> removes the timer with the given identifier, and when the clock
  reaches the time a timer is due, its function runs. Time is in milliseconds. A
  callback is known by a number; a run of it is recorded with its two arguments.

  \<open>setTimeout\<close> takes its delay as a 32-bit signed integer: the number given is
  reduced modulo \<open>2^32\<close> into the range from \<open>-2^31\<close>, and a negative delay counts
  as 0. So a delay from \<open>2^31\<close> up to \<open>2^32 - 1\<close> arms a timer that is due at once.
\<close>

record timer =
  timer_id :: nat
  timer_due :: nat
  timer_query :: string
  timer_options :: options
  timer_callback :: nat

record page =
  searchIndex :: "index option"
  debounceTimer :: "nat option"
  clock :: nat
  timers :: "timer list"
  next_id :: nat
  callback_runs :: "(nat \<times> results \<times> string) list"

definition DEBOUNCE_DELAY :: int where
  "DEBOUNCE_DELAY = 200"

definition timer_delay :: "int \<Rightarrow> nat" where
  "timer_delay d = (let m = d mod 2 ^ 32 in if m < 2 ^ 31 then nat m else 0)"

definition the_delay :: "options \<Rightarrow> int" where
  \<comment> \<open>\<open>options.delay || DEBOUNCE_DELAY\<close>\<close>
  "the_delay opts =
     (case opt_delay opts of None \<Rightarrow> DEBOUNCE_DELAY
      | Some d \<Rightarrow> if d = 0 then DEBOUNCE_DELAY else d)"

definition clearTimeout :: "nat option \<Rightarrow> page \<Rightarrow> page" where
  "clearTimeout h p =
     (case h of None \<Rightarrow> p
      | Some i \<Rightarrow> p\<lparr>timers := filter (\<lambda>t. timer_id t \<noteq> i) (timers p)\<rparr>)"

definition setTimeout :: "string \<Rightarrow> nat \<Rightarrow> options \<Rightarrow> int \<Rightarrow> page \<Rightarrow> nat \<times> page" where
  "setTimeout query callback opts d p =
     (next_id p,
      p\<lparr>timers := timers p @
           [\<lparr>timer_id = next_id p, timer_due = clock p + timer_delay d, timer_query = query,
             timer_options = opts, timer_callback = callback\<rparr>],
        next_id := Suc (next_id p)\<rparr>)"

definition debouncedSearch :: "string \<Rightarrow> nat \<Rightarrow> options \<Rightarrow> page \<Rightarrow> page" where
  "debouncedSearch query callback opts p =
     (let p1 = clearTimeout (debounceTimer p) p;
          (h, p2) = setTimeout query callback opts (the_delay opts) p1
      in p2\<lparr>debounceTimer := Some h\<rparr>)"


text \<open>The function of a timer: it searches, then calls the callback.\<close>

definition fire :: "timer \<Rightarrow> page \<Rightarrow> page" where
  "fire t p =
     (let (res, ix) = search (timer_query t) (timer_options t) (searchIndex p)
      in p\<lparr>searchIndex := ix,
           callback_runs := callback_runs p @ [(timer_callback t, res, timer_query t)]\<rparr>)"

text \<open>
  \<open>elapse d\<close>: \<open>d\<close> milliseconds pass with no call from the page. The timers due by
  then run, the earliest first.
\<close>

definition elapse :: "nat \<Rightarrow> page \<Rightarrow> page" where
  "elapse d p =
     (let now = clock p + d;
          due = sort_key timer_due (filter (\<lambda>t. timer_due t \<le> now) (timers p));
          p1 = p\<lparr>clock := now, timers := filter (\<lambda>t. \<not> timer_due t \<le> now) (timers p)\<rparr>
      in foldl (\<lambda>p t. fire t p) p1 due)"

text \<open>
  A burst: calls of \<open>debouncedSearch\<close>, each followed by a pause. A call is the
  query, the callback and the options. \<open>asked_delay\<close> is the delay that the call
  passes to \<open>setTimeout\<close>, and \<open>call_delay\<close> the delay of the timer it arms.
\<close>

type_synonym call = "string \<times> nat \<times> options"



definition do_call :: "call \<Rightarrow> page \<Rightarrow> page" where
  "do_call c p = debouncedSearch (fst c) (fst (snd c)) (snd (snd c)) p"




section \<open>Loading the data (app.js)\<close>

type_synonym links = "(string \<times> (string \<times> string) list) list \<times> (string \<times> (string \<times> string) list) list"

text \<open>What \<open>fetch\<close> and \<open>response.json()\<close> can do for one file.\<close>

datatype 'a fetched = NetworkError | HttpStatus nat | BadJson | Loaded 'a

definition loadJSON :: "'a fetched \<Rightarrow> 'a option" where
  \<comment> \<open>every failure is caught and logged, and \<open>null\<close> is returned\<close>
  "loadJSON f = (case f of Loaded v \<Rightarrow> Some v | _ \<Rightarrow> None)"

record cached =
  cached_catalog :: "catalog option"
  cached_links :: "links option"
  cached_timestamp :: nat

text \<open>The item of the session storage under \<open>CACHE_KEY\<close>.\<close>

datatype storage_item = NoItem | Unparsable | Item cached

definition CACHE_DURATION :: nat where
  "CACHE_DURATION = 5 * 60 * 1000"

record app =
  catalog :: "catalog option"
  links :: "links option"
  isInitialized :: bool
  sessionStorage :: storage_item
  app_searchIndex :: "index option"

text \<open>
  What the page gives \<open>init\<close>: the clock at \<open>getCache\<close> and at \<open>setCache\<close>, the
  outcome of the two fetches, and whether the storage accepts a write.
\<close>

record env =
  env_now :: nat
  env_now_set :: nat
  env_catalog :: "catalog fetched"
  env_links :: "links fetched"
  env_storage_ok :: bool

definition getCache :: "nat \<Rightarrow> storage_item \<Rightarrow> cached option \<times> storage_item" where
  "getCache now item =
     (case item of
        NoItem \<Rightarrow> (None, item)
      | Unparsable \<Rightarrow> (None, item)
      | Item d \<Rightarrow>
          if int now - int (cached_timestamp d) > int CACHE_DURATION then (None, NoItem)
          else (Some d, item))"

definition setCache :: "catalog \<Rightarrow> links \<Rightarrow> nat \<Rightarrow> bool \<Rightarrow> storage_item \<Rightarrow> storage_item" where
  "setCache c l now ok item =
     (if ok then Item \<lparr>cached_catalog = Some c, cached_links = Some l, cached_timestamp = now\<rparr>
      else item)"

definition init :: "env \<Rightarrow> app \<Rightarrow> bool \<times> app" where
  "init e a =
     (if isInitialized a then (True, a)
      else
        (let (hit, item) = getCache (env_now e) (sessionStorage a);
             a1 = a\<lparr>sessionStorage := item\<rparr>;
             a2 = (case hit of
                     Some d \<Rightarrow> a1\<lparr>catalog := cached_catalog d, links := cached_links d\<rparr>
                   | None \<Rightarrow>
                       (let catalogData = loadJSON (env_catalog e);
                            linksData = loadJSON (env_links e);
                            a' = a1\<lparr>catalog := catalogData, links := linksData\<rparr>
                        in case (catalogData, linksData) of
                             (Some c, Some l) \<Rightarrow>
                               a'\<lparr>sessionStorage :=
                                    setCache c l (env_now_set e) (env_storage_ok e) item\<rparr>
                           | _ \<Rightarrow> a'));
             a3 = (case catalog a2 of
                     Some c \<Rightarrow> a2\<lparr>app_searchIndex := Some (buildIndex c)\<rparr>
                   | None \<Rightarrow> a2);
             a4 = a3\<lparr>isInitialized := True\<rparr>
         in (catalog a4 \<noteq> None, a4)))"


section \<open>Durations (app.js)\<close>

text \<open>
  A JavaScript number is a double. A finite double is modelled by its value, a
  rational; \<open>is_double\<close> says which rationals are values of doubles. The quotient of
  two doubles is the exact quotient rounded to the nearest double, to the one with
  the even significand when two are equally near: \<open>round_double\<close>, for a quotient
  below the largest double in magnitude. \<open>floor_log2 q\<close> is the exponent \<open>e\<close> with
  \<open>2^e \<le> q < 2^(e + 1)\<close>, for a positive \<open>q\<close>, and \<open>quantum q\<close> is the distance between
  neighbouring doubles at \<open>q\<close>: 52 binary places below the leading one, and \<open>2^-1074\<close>
  for the subnormal numbers.
\<close>

definition floor_log2 :: "rat \<Rightarrow> int" where
  "floor_log2 q = (if 1 \<le> q then bitlen \<lfloor>q\<rfloor> - 1 else - bitlen (\<lceil>1 / q\<rceil> - 1))"

definition round_even :: "rat \<Rightarrow> int" where
  "round_even x =
     (let f = \<lfloor>x\<rfloor>; d = x - of_int f
      in if d < 1 / 2 then f else if 1 / 2 < d then f + 1 else if even f then f else f + 1)"

definition quantum :: "rat \<Rightarrow> rat" where
  "quantum q = 2 powi (max (floor_log2 q) (- 1022) - 52)"

definition round_double :: "rat \<Rightarrow> rat" where
  "round_double q =
     (if q = 0 then 0
      else if 0 < q then of_int (round_even (q / quantum q)) * quantum q
      else - (of_int (round_even (- q / quantum (- q))) * quantum (- q)))"

definition is_double :: "rat \<Rightarrow> bool" where
  "is_double q \<longleftrightarrow> round_double q = q \<and> (q = 0 \<or> floor_log2 \<bar>q\<bar> < 1024)"

text \<open>
  The argument of \<open>formatDuration\<close>: \<open>undefined\<close>, \<open>NaN\<close>, an infinity, or a finite
  double. \<open>%\<close> takes the sign of the dividend, and its result is exact. \<open>Math.floor\<close>
  is exact as well. The result is \<open>None\<close> where the model does not reach: for a
  rational that is not a double, and for a number of minutes of \<open>2^53\<close> or more.
\<close>

datatype jsnumber = Undefined | NaN | PosInfinity | NegInfinity | Num rat

definition js_rem :: "rat \<Rightarrow> rat \<Rightarrow> rat" where
  "js_rem a b = a - b * of_int (if 0 \<le> a / b then \<lfloor>a / b\<rfloor> else \<lceil>a / b\<rceil>)"

definition padStart :: "nat \<Rightarrow> char \<Rightarrow> string \<Rightarrow> string" where
  "padStart n c s = replicate (n - length s) c @ s"

definition formatDuration :: "jsnumber \<Rightarrow> string option" where
  "formatDuration seconds =
     (case seconds of
        Undefined \<Rightarrow> Some ''0:00''
      | NaN \<Rightarrow> Some ''0:00''
      | PosInfinity \<Rightarrow> Some ''Infinity:NaN''
      | NegInfinity \<Rightarrow> Some ''-Infinity:NaN''
      | Num s \<Rightarrow>
          if \<not> is_double s then None
          else if s = 0 then Some ''0:00''
          else
            (let mins = \<lfloor>round_double (s / 60)\<rfloor>;
                 secs = \<lfloor>js_rem s 60\<rfloor>
             in case (Number_toString mins, Number_toString secs) of
                  (Some m, Some t) \<Rightarrow> Some (m @ '':'' @ padStart 2 (CHR ''0'') t)
                | _ \<Rightarrow> None))"


section \<open>What the specification says\<close>

text \<open>The weights of the specification, on the lower-cased fields.\<close>

definition title_points :: "string \<Rightarrow> string \<Rightarrow> int" where
  "title_points q title = (if prefix q title then 100 else if sublist q title then 50 else 0)"

definition artist_points :: "string \<Rightarrow> string \<Rightarrow> int" where
  "artist_points q artist = (if prefix q artist then 80 else if sublist q artist then 40 else 0)"

definition album_points :: "string \<Rightarrow> string \<Rightarrow> int" where
  "album_points q album = (if sublist q album then 20 else 0)"

definition track_points :: "string \<Rightarrow> track \<Rightarrow> int" where
  "track_points q t =
     title_points q (toLowerCase (track_title t))
     + artist_points q (toLowerCase (track_artist t))
     + album_points q (case track_album t of None \<Rightarrow> [] | Some a \<Rightarrow> toLowerCase a)"

definition album_record_points :: "string \<Rightarrow> album \<Rightarrow> int" where
  "album_record_points q a =
     title_points q (toLowerCase (album_title a))
     + artist_points q (toLowerCase (album_artist a))"

text \<open>
  A record matches when the query is a substring of its lower-cased title or artist
  or, for a track, album.
\<close>

definition track_found :: "string \<Rightarrow> track \<Rightarrow> bool" where
  "track_found q t \<longleftrightarrow>
     sublist q (toLowerCase (track_title t)) \<or> sublist q (toLowerCase (track_artist t))
     \<or> sublist q (case track_album t of None \<Rightarrow> [] | Some a \<Rightarrow> toLowerCase a)"

definition album_found :: "string \<Rightarrow> album \<Rightarrow> bool" where
  "album_found q a \<longleftrightarrow>
     sublist q (toLowerCase (album_title a)) \<or> sublist q (toLowerCase (album_artist a))"

text \<open>The elements of a list in the order of their first occurrence.\<close>

fun first_occurrences :: "'a list \<Rightarrow> 'a list" where
  "first_occurrences [] = []"
| "first_occurrences (x # xs) = x # filter (\<lambda>y. y \<noteq> x) (first_occurrences xs)"

definition field_list :: "'a field \<Rightarrow> 'a list" where
  "field_list f = (case f of IsArray xs \<Rightarrow> xs | _ \<Rightarrow> [])"

text \<open>Minutes, a colon and two digits of seconds.\<close>

definition two_digits :: "int \<Rightarrow> string" where
  "two_digits n = [digit_char (n div 10), digit_char (n mod 10)]"

definition minutes_seconds :: "rat \<Rightarrow> string" where
  "minutes_seconds s =
     digits_of \<lfloor>s / 60\<rfloor> @ '':'' @ two_digits (\<lfloor>s\<rfloor> mod 60)"


section \<open>Sample data\<close>

definition midnight_run :: track where
  "midnight_run =
     \<lparr>track_id = ''1'', track_title = ''Midnight Run'', track_artist = ''Jane Doe'',
      track_album = None\<rparr>"

definition full_marks :: track where
  "full_marks =
     \<lparr>track_id = ''2'', track_title = ''Run'', track_artist = ''Runaways'',
      track_album = Some ''The Long Run''\<rparr>"

definition full_marks_album :: album where
  "full_marks_album = \<lparr>album_id = ''a1'', album_title = ''Run'', album_artist = ''Runaways''\<rparr>"

definition numbered_track :: "nat \<Rightarrow> track" where
  "numbered_track n =
     \<lparr>track_id = digits_of (int n), track_title = ''Song '' @ digits_of (int n),
      track_artist = ''The Band'', track_album = None\<rparr>"

definition another_song :: track where
  "another_song =
     \<lparr>track_id = ''51'', track_title = ''Another Song'', track_artist = ''The Band'',
      track_album = None\<rparr>"

definition crowded_catalog :: catalog where
  "crowded_catalog =
     \<lparr>cat_tracks = IsArray (map numbered_track [1..<51] @ [another_song]),
      cat_albums = Missing\<rparr>"

definition two_runs :: catalog where
  "two_runs =
     \<lparr>cat_tracks = IsArray [midnight_run, full_marks], cat_albums = IsArray [full_marks_album]\<rparr>"

definition run_home :: track where
  "run_home =
     \<lparr>track_id = ''3'', track_title = ''Run Home'', track_artist = ''Jane Doe'',
      track_album = None\<rparr>"

definition jane_catalog :: catalog where
  "jane_catalog = \<lparr>cat_tracks = IsArray [midnight_run, run_home], cat_albums = NotArray\<rparr>"

definition fresh_app :: app where
  "fresh_app =
     \<lparr>catalog = None, links = None, isInitialized = False, sessionStorage = NoItem,
      app_searchIndex = None\<rparr>"

definition links_failed :: env where
  "links_failed =
     \<lparr>env_now = 1000, env_now_set = 1200, env_catalog = Loaded jane_catalog,
      env_links = HttpStatus 404, env_storage_ok = True\<rparr>"

definition both_loaded :: env where
  "both_loaded =
     \<lparr>env_now = 1000, env_now_set = 1200, env_catalog = Loaded jane_catalog,
      env_links = Loaded ([(''1'', [(''spotify'', ''https://example.org/1'')])], []),
      env_storage_ok = True\<rparr>"

definition idle_page :: page where
  "idle_page =
     \<lparr>searchIndex = Some (buildIndex jane_catalog), debounceTimer = None, clock = 0,
      timers = [], next_id = 1, callback_runs = []\<rparr>"

definition long_delay :: options where
  "long_delay = \<lparr>opt_limit = None, opt_delay = Some 2147483648\<rparr>"


definition sample_catalog :: catalog where
  "sample_catalog = \<lparr>cat_tracks = IsArray [midnight_run], cat_albums = IsArray []\<rparr>"


section \<open>Facts about strings and arrays\<close>

lemma trim_Nil: "trim [] = []"
  by (simp add: trim_def)

lemma toLowerCase_Nil: "toLowerCase [] = []"
  by (simp add: toLowerCase_def)

lemma length_slice0: "0 \<le> n \<Longrightarrow> int (length (slice0 xs n)) \<le> n"
  by (simp add: slice0_def Let_def)

lemma length_slice0_le: "length (slice0 xs n) \<le> length xs"
  by (simp add: slice0_def Let_def)

lemma set_slice0: "set (slice0 xs n) \<subseteq> set xs"
  by (simp add: slice0_def Let_def set_take_subset)

lemma slice0_all: "int (length xs) \<le> n \<Longrightarrow> slice0 xs n = xs"
  by (simp add: slice0_def Let_def)

lemma slice0_take: "\<exists>k. slice0 xs n = take k xs"
  by (auto simp add: slice0_def Let_def)

lemma insert_cmp_insort:
  assumes "\<And>a b. cmp a b = f b - f a"
  shows "insert_cmp cmp x ys = insort_key (\<lambda>m. - f m) x ys"
  by (induction ys) (simp_all add: assms)

lemma js_sort_sort_key:
  assumes "\<And>a b. cmp a b = f b - f a"
  shows "js_sort cmp xs = sort_key (\<lambda>m. - f m) xs"
proof -
  have "insert_cmp cmp = insort_key (\<lambda>m. - f m)"
    by (intro ext) (rule insert_cmp_insort [OF assms])
  then show ?thesis
    by (simp add: js_sort_def sort_key_def)
qed


section \<open>The index that buildIndex builds\<close>

lemma foldl_add_track_tracks:
  "idx_tracks (foldl add_track ix ts) = idx_tracks ix @ map index_track ts"
  by (induction ts arbitrary: ix) (simp_all add: add_track_def)

lemma foldl_add_track_albums:
  "idx_albums (foldl add_track ix ts) = idx_albums ix"
  by (induction ts arbitrary: ix) (simp_all add: add_track_def)

lemma foldl_add_track_artists:
  "idx_artists (foldl add_track ix ts) = foldl set_add (idx_artists ix) (map track_artist ts)"
  by (induction ts arbitrary: ix) (simp_all add: add_track_def)

lemma foldl_add_album_tracks:
  "idx_tracks (foldl add_album ix as) = idx_tracks ix"
  by (induction as arbitrary: ix) (simp_all add: add_album_def)

lemma foldl_add_album_albums:
  "idx_albums (foldl add_album ix as) = idx_albums ix @ map index_album as"
  by (induction as arbitrary: ix) (simp_all add: add_album_def)

lemma foldl_add_album_artists:
  "idx_artists (foldl add_album ix as) = foldl set_add (idx_artists ix) (map album_artist as)"
  by (induction as arbitrary: ix) (simp_all add: add_album_def)

lemma set_first_occurrences: "set (first_occurrences xs) = set xs"
  by (induction xs) auto

lemma distinct_first_occurrences: "distinct (first_occurrences xs)"
  by (induction xs) (auto simp: set_first_occurrences)

lemma foldl_set_add:
  "distinct acc \<Longrightarrow>
   foldl set_add acc xs = acc @ filter (\<lambda>x. x \<notin> set acc) (first_occurrences xs)"
proof (induction xs arbitrary: acc)
  case Nil
  then show ?case by simp
next
  case (Cons x xs)
  show ?case
  proof (cases "x \<in> set acc")
    case True
    have "filter (\<lambda>y. y \<notin> set acc) (filter (\<lambda>y. y \<noteq> x) (first_occurrences xs))
          = filter (\<lambda>y. y \<notin> set acc) (first_occurrences xs)"
      using True by (auto intro: filter_cong)
    with True Cons show ?thesis by (simp add: set_add_def)
  next
    case False
    then have d: "distinct (acc @ [x])" using Cons.prems by simp
    have "filter (\<lambda>y. y \<notin> set (acc @ [x])) (first_occurrences xs)
          = filter (\<lambda>y. y \<notin> set acc) (filter (\<lambda>y. y \<noteq> x) (first_occurrences xs))"
      by (auto intro: filter_cong)
    with False Cons.IH [OF d] show ?thesis by (simp add: set_add_def)
  qed
qed

lemma foldl_set_add_Nil: "foldl set_add [] xs = first_occurrences xs"
  by (simp add: foldl_set_add)

lemma buildIndex_tracks: "idx_tracks (buildIndex c) = map index_track (field_list (cat_tracks c))"
  by (simp add: buildIndex_def Let_def field_list_def empty_index_def foldl_add_track_tracks
      foldl_add_album_tracks split: field.split)

lemma buildIndex_albums: "idx_albums (buildIndex c) = map index_album (field_list (cat_albums c))"
  by (simp add: buildIndex_def Let_def field_list_def empty_index_def foldl_add_track_albums
      foldl_add_album_albums split: field.split)

lemma buildIndex_artists_fold:
  "idx_artists (buildIndex c) =
     foldl set_add (foldl set_add [] (map track_artist (field_list (cat_tracks c))))
       (map album_artist (field_list (cat_albums c)))"
  by (simp add: buildIndex_def Let_def field_list_def empty_index_def foldl_add_track_artists
      foldl_add_album_artists split: field.split)

lemma buildIndex_artists:
  "idx_artists (buildIndex c) =
     first_occurrences (map track_artist (field_list (cat_tracks c))
                        @ map album_artist (field_list (cat_albums c)))"
  unfolding buildIndex_artists_fold foldl_append [symmetric] by (rule foldl_set_add_Nil)


text \<open>
  C5: for every catalog, the tracks and the albums of the index are the lower-cased
  projections of the catalog's tracks and albums, in order, a \<open>tracks\<close> or \<open>albums\<close>
  field that is missing or not an array counting as empty; each entry refers to the
  record it was made from; and \<open>artists\<close> holds each artist name once, in the order
  of first occurrence over the tracks and then the albums.
\<close>

theorem buildIndex_projection:
  "map te_id (idx_tracks (buildIndex c)) = map track_id (field_list (cat_tracks c))
   \<and> map te_title (idx_tracks (buildIndex c))
       = map (\<lambda>t. toLowerCase (track_title t)) (field_list (cat_tracks c))
   \<and> map te_artist (idx_tracks (buildIndex c))
       = map (\<lambda>t. toLowerCase (track_artist t)) (field_list (cat_tracks c))
   \<and> map te_album (idx_tracks (buildIndex c))
       = map (\<lambda>t. case track_album t of None \<Rightarrow> [] | Some a \<Rightarrow> toLowerCase a)
           (field_list (cat_tracks c))
   \<and> map te_original (idx_tracks (buildIndex c)) = field_list (cat_tracks c)
   \<and> map ae_id (idx_albums (buildIndex c)) = map album_id (field_list (cat_albums c))
   \<and> map ae_title (idx_albums (buildIndex c))
       = map (\<lambda>a. toLowerCase (album_title a)) (field_list (cat_albums c))
   \<and> map ae_artist (idx_albums (buildIndex c))
       = map (\<lambda>a. toLowerCase (album_artist a)) (field_list (cat_albums c))
   \<and> map ae_original (idx_albums (buildIndex c)) = field_list (cat_albums c)
   \<and> idx_artists (buildIndex c)
       = first_occurrences (map track_artist (field_list (cat_tracks c))
                            @ map album_artist (field_list (cat_albums c)))
   \<and> distinct (idx_artists (buildIndex c))
   \<and> set (idx_artists (buildIndex c))
       = track_artist ` set (field_list (cat_tracks c))
         \<union> album_artist ` set (field_list (cat_albums c))
   \<and> field_list (Missing :: track field) = [] \<and> field_list (NotArray :: track field) = []
   \<and> field_list (Missing :: album field) = [] \<and> field_list (NotArray :: album field) = []"
  by (simp add: buildIndex_tracks buildIndex_albums buildIndex_artists index_track_def
      index_album_def o_def toLowerCase_Nil distinct_first_occurrences set_first_occurrences
      field_list_def split: option.split cong: map_cong)

section \<open>What search computes\<close>

lemma insort_key_map:
  "insort_key f (g x) (map g ys) = map g (insort_key (\<lambda>y. f (g y)) x ys)"
  by (induction ys) simp_all

lemma sort_key_map: "sort_key f (map g xs) = map g (sort_key (\<lambda>y. f (g y)) xs)"
  by (induction xs) (simp_all add: insort_key_map)

lemma includes_str_prefix: "startsWith s q \<Longrightarrow> includes_str s q"
  by (simp add: startsWith_def includes_str_def prefix_imp_sublist)

lemma track_score_points: "track_score q (index_track t) = track_points q t"
  by (simp add: track_score_def track_points_def index_track_def title_points_def
      artist_points_def album_points_def startsWith_def includes_str_def Let_def
      toLowerCase_Nil split: option.split)

lemma album_score_points: "album_score q (index_album a) = album_record_points q a"
  by (simp add: album_score_def album_record_points_def index_album_def title_points_def
      artist_points_def startsWith_def includes_str_def Let_def)

lemma track_matches_found: "track_matches q (index_track t) = track_found q t"
  by (simp add: track_matches_def track_found_def index_track_def includes_str_def
      toLowerCase_Nil split: option.split)

lemma album_matches_found: "album_matches q (index_album a) = album_found q a"
  by (simp add: album_matches_def album_found_def index_album_def includes_str_def)

lemma ranked_tracks_sort_key:
  "ranked_tracks q ix =
     sort_key (\<lambda>m. - the (te_score m)) (map (score_track q) (filter (track_matches q) (idx_tracks ix)))"
  unfolding ranked_tracks_def
  by (rule js_sort_sort_key) (simp add: by_track_score_def)

lemma ranked_albums_sort_key:
  "ranked_albums q ix =
     sort_key (\<lambda>m. - the (ae_score m)) (map (score_album q) (filter (album_matches q) (idx_albums ix)))"
  unfolding ranked_albums_def
  by (rule js_sort_sort_key) (simp add: by_album_score_def)

lemma originals_ranked_tracks:
  "map te_original (ranked_tracks q (buildIndex c)) =
     sort_key (\<lambda>t. - track_points q t) (filter (track_found q) (field_list (cat_tracks c)))"
proof -
  let ?g = "\<lambda>t. score_track q (index_track t)"
  have "ranked_tracks q (buildIndex c) =
        sort_key (\<lambda>m. - the (te_score m)) (map ?g (filter (track_found q) (field_list (cat_tracks c))))"
    by (simp add: ranked_tracks_sort_key buildIndex_tracks filter_map o_def track_matches_found)
  also have "\<dots> = map ?g (sort_key (\<lambda>t. - track_points q t) (filter (track_found q) (field_list (cat_tracks c))))"
    by (simp add: sort_key_map score_track_def track_score_points)
  finally show ?thesis
    by (simp add: o_def score_track_def index_track_def)
qed

lemma originals_ranked_albums:
  "map ae_original (ranked_albums q (buildIndex c)) =
     sort_key (\<lambda>a. - album_record_points q a) (filter (album_found q) (field_list (cat_albums c)))"
proof -
  let ?g = "\<lambda>a. score_album q (index_album a)"
  have "ranked_albums q (buildIndex c) =
        sort_key (\<lambda>m. - the (ae_score m)) (map ?g (filter (album_found q) (field_list (cat_albums c))))"
    by (simp add: ranked_albums_sort_key buildIndex_albums filter_map o_def album_matches_found)
  also have "\<dots> = map ?g (sort_key (\<lambda>a. - album_record_points q a) (filter (album_found q) (field_list (cat_albums c))))"
    by (simp add: sort_key_map score_album_def album_score_points)
  finally show ?thesis
    by (simp add: o_def score_album_def index_album_def)
qed

lemma map_slice0: "map f (slice0 xs n) = slice0 (map f xs) n"
  by (simp add: slice0_def Let_def take_map)

lemma search_Some:
  "trim (toLowerCase query) = q \<Longrightarrow> q \<noteq> [] \<Longrightarrow>
   search query opts (Some ix) =
     (\<lparr>res_tracks = map te_original (slice0 (ranked_tracks q ix) (the_limit opts)),
       res_albums = map ae_original (slice0 (ranked_albums q ix) (the_limit opts)),
       res_artists = slice0 (filter (\<lambda>artist. includes_str (toLowerCase artist) q) (idx_artists ix)) 10\<rparr>,
      Some (scored_index q ix))"
  by (auto simp add: search_def Let_def)

lemma search_tracks:
  "trim (toLowerCase query) = q \<Longrightarrow> q \<noteq> [] \<Longrightarrow>
   res_tracks (fst (search query opts (Some (buildIndex c)))) =
     slice0 (sort_key (\<lambda>t. - track_points q t) (filter (track_found q) (field_list (cat_tracks c))))
       (the_limit opts)"
  by (simp add: search_Some map_slice0 originals_ranked_tracks)

lemma search_albums:
  "trim (toLowerCase query) = q \<Longrightarrow> q \<noteq> [] \<Longrightarrow>
   res_albums (fst (search query opts (Some (buildIndex c)))) =
     slice0 (sort_key (\<lambda>a. - album_record_points q a) (filter (album_found q) (field_list (cat_albums c))))
       (the_limit opts)"
  by (simp add: search_Some map_slice0 originals_ranked_albums)

lemma title_points_le: "title_points q s \<le> 100" and artist_points_le: "artist_points q s \<le> 80"
  and album_points_le: "album_points q s \<le> 20"
  by (simp_all add: title_points_def artist_points_def album_points_def)

lemma track_points_le: "track_points q t \<le> 200"
  using title_points_le [of q "toLowerCase (track_title t)"]
    artist_points_le [of q "toLowerCase (track_artist t)"]
    album_points_le [of q "case track_album t of None \<Rightarrow> [] | Some a \<Rightarrow> toLowerCase a"]
  unfolding track_points_def by linarith

lemma album_record_points_le: "album_record_points q a \<le> 180"
  using title_points_le [of q "toLowerCase (album_title a)"]
    artist_points_le [of q "toLowerCase (album_artist a)"]
  unfolding album_record_points_def by linarith

lemma index_track_unscored: "(index_track t)\<lparr>te_score := None\<rparr> = index_track t"
  by (simp add: index_track_def)

lemma index_album_unscored: "(index_album a)\<lparr>ae_score := None\<rparr> = index_album a"
  by (simp add: index_album_def)

lemma scored_index_tracks:
  "idx_tracks (scored_index q (buildIndex c)) =
     map (\<lambda>t. (index_track t)\<lparr>te_score := if track_found q t then Some (track_points q t) else None\<rparr>)
       (field_list (cat_tracks c))"
proof -
  have "(if track_matches q (index_track t) then score_track q (index_track t) else index_track t)
        = (index_track t)\<lparr>te_score := if track_found q t then Some (track_points q t) else None\<rparr>" for t
    by (simp add: track_matches_found score_track_def track_score_points index_track_unscored)
  then show ?thesis
    by (simp add: scored_index_def buildIndex_tracks o_def)
qed

lemma scored_index_albums:
  "idx_albums (scored_index q (buildIndex c)) =
     map (\<lambda>a. (index_album a)\<lparr>ae_score := if album_found q a then Some (album_record_points q a) else None\<rparr>)
       (field_list (cat_albums c))"
proof -
  have "(if album_matches q (index_album a) then score_album q (index_album a) else index_album a)
        = (index_album a)\<lparr>ae_score := if album_found q a then Some (album_record_points q a) else None\<rparr>" for a
    by (simp add: album_matches_found score_album_def album_score_points index_album_unscored)
  then show ?thesis
    by (simp add: scored_index_def buildIndex_albums o_def)
qed


lemma search_tracks_length:
  "0 \<le> the_limit opts \<Longrightarrow> int (length (res_tracks (fst (search query opts st)))) \<le> the_limit opts"
  by (cases st) (simp_all add: search_def Let_def no_results_def length_slice0)

lemma search_albums_length:
  "0 \<le> the_limit opts \<Longrightarrow> int (length (res_albums (fst (search query opts st)))) \<le> the_limit opts"
  by (cases st) (simp_all add: search_def Let_def no_results_def length_slice0)

lemma search_artists_length: "length (res_artists (fst (search query opts st))) \<le> 10"
proof -
  have "int (length (slice0 xs 10)) \<le> 10" for xs :: "string list"
    by (rule length_slice0) simp
  then have "length (slice0 xs 10) \<le> 10" for xs :: "string list"
    by (metis of_nat_le_iff of_nat_numeral)
  then show ?thesis
    by (cases st) (simp_all add: search_def Let_def no_results_def)
qed

lemma sorted_key_before:
  assumes "sorted (map f T)" and "j < length T" and "a \<in> set T" and "f a < f (T ! j)"
  shows "\<exists>i<j. T ! i = a"
proof -
  from \<open>a \<in> set T\<close> obtain i where i: "i < length T" "T ! i = a"
    by (auto simp: in_set_conv_nth)
  have "i < j"
  proof (rule ccontr)
    assume "\<not> i < j"
    then have "j \<le> i" by simp
    with assms(1) i(1) have "map f T ! j \<le> map f T ! i"
      by (simp add: sorted_iff_nth_mono)
    with i assms(2,4) show False by simp
  qed
  with i show ?thesis by blast
qed

lemma slice0_nth: "j < length (slice0 xs n) \<Longrightarrow> slice0 xs n ! j = xs ! j"
  by (simp add: slice0_def Let_def)

lemma slice0_before:
  "j < length (slice0 xs n) \<Longrightarrow> i < j \<Longrightarrow> i < length (slice0 xs n) \<and> slice0 xs n ! i = xs ! i"
  by (simp add: slice0_def Let_def)

lemma title_match_found: "sublist q (toLowerCase (track_title t)) \<Longrightarrow> track_found q t"
  by (simp add: track_found_def)

lemma search_tracks_descending:
  assumes "trim (toLowerCase query) = q" and "q \<noteq> []"
    and "i < j" and "j < length (res_tracks (fst (search query opts (Some (buildIndex c)))))"
  shows "track_points q (res_tracks (fst (search query opts (Some (buildIndex c)))) ! j)
         \<le> track_points q (res_tracks (fst (search query opts (Some (buildIndex c)))) ! i)"
proof -
  let ?T = "sort_key (\<lambda>t. - track_points q t) (filter (track_found q) (field_list (cat_tracks c)))"
  have R: "res_tracks (fst (search query opts (Some (buildIndex c)))) = slice0 ?T (the_limit opts)"
    using assms(1,2) by (rule search_tracks)
  have j: "j < length (slice0 ?T (the_limit opts))" using assms(4) R by simp
  then have jT: "j < length ?T" using length_slice0_le [of ?T "the_limit opts"] by linarith
  have "sorted (map (\<lambda>t. - track_points q t) ?T)" by (rule sorted_sort_key)
  with jT \<open>i < j\<close> have "map (\<lambda>t. - track_points q t) ?T ! i \<le> map (\<lambda>t. - track_points q t) ?T ! j"
    by (simp add: sorted_iff_nth_mono del: length_sort sorted_sort_key)
  with jT \<open>i < j\<close> have "track_points q (?T ! j) \<le> track_points q (?T ! i)"
    by simp
  with slice0_nth [OF j] slice0_before [OF j \<open>i < j\<close>] R show ?thesis by simp
qed

lemma search_tracks_prefix_first:
  assumes "trim (toLowerCase query) = q" and "q \<noteq> []"
    and a: "a \<in> set (field_list (cat_tracks c))" "track_found q a"
    and j: "j < length (res_tracks (fst (search query opts (Some (buildIndex c)))))"
    and less: "track_points q (res_tracks (fst (search query opts (Some (buildIndex c)))) ! j)
               < track_points q a"
  shows "\<exists>i<j. res_tracks (fst (search query opts (Some (buildIndex c)))) ! i = a"
proof -
  let ?T = "sort_key (\<lambda>t. - track_points q t) (filter (track_found q) (field_list (cat_tracks c)))"
  have R: "res_tracks (fst (search query opts (Some (buildIndex c)))) = slice0 ?T (the_limit opts)"
    using assms(1,2) by (rule search_tracks)
  have j': "j < length (slice0 ?T (the_limit opts))" using j R by simp
  then have jT: "j < length ?T" using length_slice0_le [of ?T "the_limit opts"] by linarith
  have s: "sorted (map (\<lambda>t. - track_points q t) ?T)" by (rule sorted_sort_key)
  have aT: "a \<in> set ?T" using a by simp
  have "- track_points q a < - track_points q (?T ! j)"
    using less R slice0_nth [OF j'] by simp
  from sorted_key_before [OF s jT aT this] obtain i where i: "i < j" "?T ! i = a" by blast
  with slice0_before [OF j' i(1)] R show ?thesis by auto
qed

lemma set_ranked_tracks:
  "set (ranked_tracks q ix) = score_track q ` {e \<in> set (idx_tracks ix). track_matches q e}"
  by (simp add: ranked_tracks_sort_key)

lemma set_ranked_albums:
  "set (ranked_albums q ix) = score_album q ` {e \<in> set (idx_albums ix). album_matches q e}"
  by (simp add: ranked_albums_sort_key)

lemma originals_of_ranked_tracks:
  "te_original ` set (slice0 (ranked_tracks q ix) n) \<subseteq> te_original ` set (idx_tracks ix)"
proof -
  have "te_original ` set (ranked_tracks q ix) \<subseteq> te_original ` set (idx_tracks ix)"
    by (auto simp: set_ranked_tracks score_track_def)
  with set_slice0 [of "ranked_tracks q ix" n] show ?thesis by blast
qed

lemma originals_of_ranked_albums:
  "ae_original ` set (slice0 (ranked_albums q ix) n) \<subseteq> ae_original ` set (idx_albums ix)"
proof -
  have "ae_original ` set (ranked_albums q ix) \<subseteq> ae_original ` set (idx_albums ix)"
    by (auto simp: set_ranked_albums score_album_def)
  with set_slice0 [of "ranked_albums q ix" n] show ?thesis by blast
qed

lemma search_index_frame:
  "\<exists>ix'. snd (search query opts (Some ix)) = Some ix'
     \<and> map (\<lambda>e. e\<lparr>te_score := None\<rparr>) (idx_tracks ix')
         = map (\<lambda>e. e\<lparr>te_score := None\<rparr>) (idx_tracks ix)
     \<and> map (\<lambda>e. e\<lparr>ae_score := None\<rparr>) (idx_albums ix')
         = map (\<lambda>e. e\<lparr>ae_score := None\<rparr>) (idx_albums ix)
     \<and> map te_original (idx_tracks ix') = map te_original (idx_tracks ix)
     \<and> map ae_original (idx_albums ix') = map ae_original (idx_albums ix)
     \<and> idx_artists ix' = idx_artists ix"
  by (simp add: search_def Let_def scored_index_def score_track_def score_album_def o_def
      cong: if_cong)

lemma search_results_original:
  "set (res_tracks (fst (search query opts (Some ix)))) \<subseteq> te_original ` set (idx_tracks ix)
   \<and> set (res_albums (fst (search query opts (Some ix)))) \<subseteq> ae_original ` set (idx_albums ix)"
  by (simp add: search_def Let_def no_results_def originals_of_ranked_tracks
      originals_of_ranked_albums)

lemma search_results_catalog:
  "set (res_tracks (fst (search query opts (Some (buildIndex c))))) \<subseteq> set (field_list (cat_tracks c))
   \<and> set (res_albums (fst (search query opts (Some (buildIndex c))))) \<subseteq> set (field_list (cat_albums c))"
proof -
  have "te_original ` set (idx_tracks (buildIndex c)) = set (field_list (cat_tracks c))"
    by (simp add: buildIndex_tracks image_image index_track_def)
  moreover have "ae_original ` set (idx_albums (buildIndex c)) = set (field_list (cat_albums c))"
    by (simp add: buildIndex_albums image_image index_album_def)
  ultimately show ?thesis
    using search_results_original [of query opts "buildIndex c"] by simp
qed

section \<open>Empty results\<close>

text \<open>
  C2: with no index built, or with a query that is empty after lower-casing and
  trimming, \<open>search\<close> returns three empty sequences and leaves the index as it was;
  so does \<open>search("")\<close> after \<open>buildIndex\<close> of any catalog. The model of \<open>search\<close> is a
  total function on strings and options, so there is no exception on these paths.
\<close>

theorem search_empty:
  "fst (search query opts None) = no_results
   \<and> (trim (toLowerCase query) = [] \<longrightarrow> search query opts st = (no_results, st))
   \<and> search [] opts (Some (buildIndex c)) = (no_results, Some (buildIndex c))
   \<and> res_tracks no_results = [] \<and> res_albums no_results = [] \<and> res_artists no_results = []"
  by (simp add: search_def no_results_def trim_Nil toLowerCase_Nil split: option.split)

theorem search_empty_witness:
  "trim (toLowerCase ''   '') = []
   \<and> search ''   '' default_options (Some (buildIndex sample_catalog))
       = (no_results, Some (buildIndex sample_catalog))"
proof -
  have h: "trim (toLowerCase ''   '') = []" by code_simp
  with search_empty [of "''   ''" default_options "Some (buildIndex sample_catalog)"]
  show ?thesis by simp
qed


section \<open>Scores\<close>

text \<open>
  C1, against the claim as stated: a track whose title and artist both start with the
  query and whose album contains it scores 100 + 80 + 20 = 200, above 170; an album
  whose title and artist both start with the query scores 180, above 120.
\<close>

theorem track_score_counterexample:
  "\<not> track_score ''run'' (index_track full_marks) \<le> 170
   \<and> \<not> album_score ''run'' (index_album full_marks_album) \<le> 120
   \<and> map_option (\<lambda>ix. map te_score (idx_tracks ix))
        (snd (search ''Run'' default_options (Some (buildIndex two_runs)))) = Some [Some 50, Some 200]
   \<and> map_option (\<lambda>ix. map ae_score (idx_albums ix))
        (snd (search ''Run'' default_options (Some (buildIndex two_runs)))) = Some [Some 180]"
  by code_simp


text \<open>
  C1, amended: for every catalog and every query that is not empty after lower-casing
  and trimming, \<open>search\<close> on the index built from the catalog gives each matching
  track the sum of 100 for a lower-cased title that starts with the query, else 50
  for one that contains it, 80 for a lower-cased artist that starts with the query,
  else 40 for one that contains it, and 20 for a lower-cased album that contains it;
  each matching album gets the sum of the first two. The entries that do not match
  get no score. The results are the matching records in descending order of these
  sums, cut at the limit. A track scores at most 200 and an album at most 180, and
  both maxima are reached.
\<close>

theorem search_scores:
  assumes "trim (toLowerCase query) = q" and "q \<noteq> []"
  shows "(\<exists>ix. snd (search query opts (Some (buildIndex c))) = Some ix
      \<and> idx_tracks ix =
          map (\<lambda>t. (index_track t)\<lparr>te_score :=
                 if track_found q t then Some (track_points q t) else None\<rparr>)
            (field_list (cat_tracks c))
      \<and> idx_albums ix =
          map (\<lambda>a. (index_album a)\<lparr>ae_score :=
                 if album_found q a then Some (album_record_points q a) else None\<rparr>)
            (field_list (cat_albums c)))
    \<and> res_tracks (fst (search query opts (Some (buildIndex c)))) =
           slice0 (sort_key (\<lambda>t. - track_points q t)
                     (filter (track_found q) (field_list (cat_tracks c)))) (the_limit opts)
    \<and> res_albums (fst (search query opts (Some (buildIndex c)))) =
           slice0 (sort_key (\<lambda>a. - album_record_points q a)
                     (filter (album_found q) (field_list (cat_albums c)))) (the_limit opts)
    \<and> track_points q t \<le> 200 \<and> album_record_points q a \<le> 180
    \<and> track_points ''run'' full_marks = 200
    \<and> album_record_points ''run'' full_marks_album = 180"
proof -
  have "\<exists>ix. snd (search query opts (Some (buildIndex c))) = Some ix
      \<and> idx_tracks ix =
          map (\<lambda>t. (index_track t)\<lparr>te_score :=
                 if track_found q t then Some (track_points q t) else None\<rparr>)
            (field_list (cat_tracks c))
      \<and> idx_albums ix =
          map (\<lambda>a. (index_album a)\<lparr>ae_score :=
                 if album_found q a then Some (album_record_points q a) else None\<rparr>)
            (field_list (cat_albums c))"
    using assms by (simp add: search_Some scored_index_tracks scored_index_albums)
  moreover have "res_tracks (fst (search query opts (Some (buildIndex c)))) =
           slice0 (sort_key (\<lambda>t. - track_points q t)
                     (filter (track_found q) (field_list (cat_tracks c)))) (the_limit opts)"
    using assms by (rule search_tracks)
  moreover have "res_albums (fst (search query opts (Some (buildIndex c)))) =
           slice0 (sort_key (\<lambda>a. - album_record_points q a)
                     (filter (album_found q) (field_list (cat_albums c)))) (the_limit opts)"
    using assms by (rule search_albums)
  moreover have "track_points q t \<le> 200" by (rule track_points_le)
  moreover have "album_record_points q a \<le> 180" by (rule album_record_points_le)
  moreover have "track_points ''run'' full_marks = 200" by code_simp
  moreover have "album_record_points ''run'' full_marks_album = 180" by code_simp
  ultimately show ?thesis by blast
qed

theorem search_scores_witness:
  "trim (toLowerCase '' Mid'') = ''mid'' \<and> ''mid'' \<noteq> []
   \<and> res_tracks (fst (search '' Mid'' default_options (Some (buildIndex sample_catalog)))) =
       slice0 (sort_key (\<lambda>t. - track_points ''mid'' t)
                 (filter (track_found ''mid'') (field_list (cat_tracks sample_catalog))))
         (the_limit default_options)
   \<and> track_points ''mid'' midnight_run = 100
   \<and> track_points ''doe'' midnight_run = 40
   \<and> \<not> track_found ''zzz'' midnight_run"
proof -
  have h: "trim (toLowerCase '' Mid'') = ''mid''" by code_simp
  have n: "''mid'' \<noteq> []" by simp
  have p: "track_points ''mid'' midnight_run = 100" "track_points ''doe'' midnight_run = 40"
    "\<not> track_found ''zzz'' midnight_run"
    by code_simp+
  from search_scores [OF h n, of default_options sample_catalog] h n p
  show ?thesis by blast
qed


section \<open>Lengths of the results\<close>

text \<open>
  C3, against the claim as stated: a requested limit of 0 is falsy, so the limit used
  is 50 and a match is returned; a requested limit of -1 reaches \<open>slice\<close>, which then
  drops the last match only.
\<close>

theorem search_limit_counterexample:
  "\<not> int (length (res_tracks (fst (search ''run'' \<lparr>opt_limit = Some 0, opt_delay = None\<rparr>
        (Some (buildIndex two_runs)))))) \<le> 0
   \<and> \<not> int (length (res_tracks (fst (search ''run'' \<lparr>opt_limit = Some (- 1), opt_delay = None\<rparr>
        (Some (buildIndex two_runs)))))) \<le> - 1"
  by code_simp


text \<open>
  C3, amended: for every index state, query and options, the tracks and the albums
  returned have at most \<open>l\<close> entries when a positive limit \<open>l\<close> is requested, and at
  most 50 when no limit is given or the limit given is 0; the artists returned have
  at most 10 entries.
\<close>

theorem search_lengths:
  "(opt_limit opts = None \<or> opt_limit opts = Some 0 \<longrightarrow>
      length (res_tracks (fst (search query opts st))) \<le> 50
      \<and> length (res_albums (fst (search query opts st))) \<le> 50)
   \<and> (\<forall>l. opt_limit opts = Some l \<and> 0 < l \<longrightarrow>
      int (length (res_tracks (fst (search query opts st)))) \<le> l
      \<and> int (length (res_albums (fst (search query opts st)))) \<le> l)
   \<and> length (res_artists (fst (search query opts st))) \<le> 10"
proof (intro conjI impI allI)
  assume a: "opt_limit opts = None \<or> opt_limit opts = Some 0"
  then have l: "the_limit opts = 50"
    by (auto simp: the_limit_def DEFAULT_LIMIT_def)
  show "length (res_tracks (fst (search query opts st))) \<le> 50"
    using search_tracks_length [of opts query st] l by simp
  show "length (res_albums (fst (search query opts st))) \<le> 50"
    using search_albums_length [of opts query st] l by simp
next
  fix l assume a: "opt_limit opts = Some l \<and> 0 < l"
  then have l: "the_limit opts = l"
    by (auto simp: the_limit_def)
  show "int (length (res_tracks (fst (search query opts st)))) \<le> l"
    using search_tracks_length [of opts query st] l a by simp
  show "int (length (res_albums (fst (search query opts st)))) \<le> l"
    using search_albums_length [of opts query st] l a by simp
next
  show "length (res_artists (fst (search query opts st))) \<le> 10"
    by (rule search_artists_length)
qed


theorem search_lengths_witness:
  "opt_limit \<lparr>opt_limit = Some 1, opt_delay = None\<rparr> = Some 1 \<and> (0::int) < 1
   \<and> int (length (res_tracks (fst (search ''run'' \<lparr>opt_limit = Some 1, opt_delay = None\<rparr>
        (Some (buildIndex two_runs)))))) \<le> 1
   \<and> res_tracks (fst (search ''run'' \<lparr>opt_limit = Some 1, opt_delay = None\<rparr>
        (Some (buildIndex two_runs)))) = [full_marks]
   \<and> (opt_limit default_options = None \<or> opt_limit default_options = Some 0)
   \<and> length (res_tracks (fst (search ''run'' default_options (Some (buildIndex two_runs))))) \<le> 50"
proof -
  have e: "res_tracks (fst (search ''run'' \<lparr>opt_limit = Some 1, opt_delay = None\<rparr>
        (Some (buildIndex two_runs)))) = [full_marks]"
    by code_simp
  have d: "opt_limit default_options = None \<or> opt_limit default_options = Some 0"
    by (simp add: default_options_def)
  show ?thesis
    using search_lengths [of "\<lparr>opt_limit = Some 1, opt_delay = None\<rparr>" "''run''" "Some (buildIndex two_runs)"]
      search_lengths [of default_options "''run''" "Some (buildIndex two_runs)"] e d
    by simp
qed



section \<open>Ranking\<close>

text \<open>
  C4, against the claim as stated: with 51 tracks whose titles contain the query and
  no limit given, the results stop at 50 entries; the track that only contains the
  query in its title ranks last and is not returned.
\<close>

theorem search_title_matches_counterexample:
  "another_song \<in> set (field_list (cat_tracks crowded_catalog))
   \<and> sublist (trim (toLowerCase ''song'')) (toLowerCase (track_title another_song))
   \<and> another_song \<notin> set (res_tracks (fst (search ''song'' default_options
                                           (Some (buildIndex crowded_catalog)))))"
  by code_simp

text \<open>
  C4, amended: for every catalog and every query \<open>q\<close> that is not empty after
  lower-casing and trimming, every track of the catalog whose lower-cased title
  contains \<open>q\<close> is among the ranked matches, and is in the tracks returned whenever
  the number of matching tracks is at most the limit; the tracks returned are in
  descending order of score; and when a track \<open>a\<close> of the catalog has a title that
  starts with \<open>q\<close>, a track \<open>b\<close> has a title that contains \<open>q\<close> without starting
  with it, and the two earn the same for artist and album, then wherever \<open>b\<close> is
  returned, \<open>a\<close> is returned before it.
\<close>

theorem search_title_matches:
  assumes "trim (toLowerCase query) = q" and "q \<noteq> []"
  shows
    "(t \<in> set (field_list (cat_tracks c)) \<and> sublist q (toLowerCase (track_title t)) \<longrightarrow>
        t \<in> set (map te_original (ranked_tracks q (buildIndex c)))
        \<and> (int (length (filter (track_found q) (field_list (cat_tracks c)))) \<le> the_limit opts \<longrightarrow>
             t \<in> set (res_tracks (fst (search query opts (Some (buildIndex c)))))))
     \<and> (i < j \<and> j < length (res_tracks (fst (search query opts (Some (buildIndex c))))) \<longrightarrow>
          track_points q (res_tracks (fst (search query opts (Some (buildIndex c)))) ! j)
          \<le> track_points q (res_tracks (fst (search query opts (Some (buildIndex c)))) ! i))
     \<and> (a \<in> set (field_list (cat_tracks c))
        \<and> prefix q (toLowerCase (track_title a))
        \<and> sublist q (toLowerCase (track_title b)) \<and> \<not> prefix q (toLowerCase (track_title b))
        \<and> artist_points q (toLowerCase (track_artist a)) = artist_points q (toLowerCase (track_artist b))
        \<and> album_points q (case track_album a of None \<Rightarrow> [] | Some x \<Rightarrow> toLowerCase x)
            = album_points q (case track_album b of None \<Rightarrow> [] | Some x \<Rightarrow> toLowerCase x)
        \<and> k < length (res_tracks (fst (search query opts (Some (buildIndex c)))))
        \<and> res_tracks (fst (search query opts (Some (buildIndex c)))) ! k = b \<longrightarrow>
          (\<exists>i<k. res_tracks (fst (search query opts (Some (buildIndex c)))) ! i = a))"
proof (intro conjI impI)
  let ?ts = "field_list (cat_tracks c)"
  let ?R = "res_tracks (fst (search query opts (Some (buildIndex c))))"
  let ?T = "sort_key (\<lambda>t. - track_points q t) (filter (track_found q) ?ts)"
  have R: "?R = slice0 ?T (the_limit opts)"
    using assms by (rule search_tracks)
  {
    assume t: "t \<in> set ?ts \<and> sublist q (toLowerCase (track_title t))"
    then have tT: "t \<in> set ?T" by (simp add: title_match_found)
    then show "t \<in> set (map te_original (ranked_tracks q (buildIndex c)))"
      by (simp only: originals_ranked_tracks)
    assume "int (length (filter (track_found q) ?ts)) \<le> the_limit opts"
    then have "slice0 ?T (the_limit opts) = ?T"
      by (intro slice0_all) simp
    with tT R show "t \<in> set ?R" by simp
  }
  {
    assume "i < j \<and> j < length ?R"
    then show "track_points q (?R ! j) \<le> track_points q (?R ! i)"
      using search_tracks_descending [OF assms, of i j opts c] by simp
  }
  {
    assume h: "a \<in> set ?ts
        \<and> prefix q (toLowerCase (track_title a))
        \<and> sublist q (toLowerCase (track_title b)) \<and> \<not> prefix q (toLowerCase (track_title b))
        \<and> artist_points q (toLowerCase (track_artist a)) = artist_points q (toLowerCase (track_artist b))
        \<and> album_points q (case track_album a of None \<Rightarrow> [] | Some x \<Rightarrow> toLowerCase x)
            = album_points q (case track_album b of None \<Rightarrow> [] | Some x \<Rightarrow> toLowerCase x)
        \<and> k < length ?R \<and> ?R ! k = b"
    then have fa: "track_found q a"
      by (simp add: track_found_def prefix_imp_sublist)
    from h have "track_points q b < track_points q a"
      by (simp add: track_points_def title_points_def)
    with h have "track_points q (?R ! k) < track_points q a" by simp
    with h fa show "\<exists>i<k. ?R ! i = a"
      using search_tracks_prefix_first [OF assms, of a c k opts] by simp
  }
qed


theorem search_title_matches_witness:
  "trim (toLowerCase ''Run'') = ''run'' \<and> ''run'' \<noteq> []
   \<and> midnight_run \<in> set (field_list (cat_tracks jane_catalog))
   \<and> sublist ''run'' (toLowerCase (track_title midnight_run))
   \<and> int (length (filter (track_found ''run'') (field_list (cat_tracks jane_catalog))))
       \<le> the_limit default_options
   \<and> midnight_run \<in> set (res_tracks (fst (search ''Run'' default_options
                                          (Some (buildIndex jane_catalog)))))
   \<and> run_home \<in> set (field_list (cat_tracks jane_catalog))
   \<and> prefix ''run'' (toLowerCase (track_title run_home))
   \<and> \<not> prefix ''run'' (toLowerCase (track_title midnight_run))
   \<and> artist_points ''run'' (toLowerCase (track_artist run_home))
       = artist_points ''run'' (toLowerCase (track_artist midnight_run))
   \<and> album_points ''run'' (case track_album run_home of None \<Rightarrow> [] | Some x \<Rightarrow> toLowerCase x)
       = album_points ''run'' (case track_album midnight_run of None \<Rightarrow> [] | Some x \<Rightarrow> toLowerCase x)
   \<and> 1 < length (res_tracks (fst (search ''Run'' default_options (Some (buildIndex jane_catalog)))))
   \<and> res_tracks (fst (search ''Run'' default_options (Some (buildIndex jane_catalog)))) ! 1
       = midnight_run
   \<and> (\<exists>i<1. res_tracks (fst (search ''Run'' default_options (Some (buildIndex jane_catalog)))) ! i
              = run_home)"
proof -
  have h: "trim (toLowerCase ''Run'') = ''run''" by code_simp
  have n: "''run'' \<noteq> []" by simp
  have 1: "midnight_run \<in> set (field_list (cat_tracks jane_catalog))"
    "sublist ''run'' (toLowerCase (track_title midnight_run))"
    "int (length (filter (track_found ''run'') (field_list (cat_tracks jane_catalog))))
       \<le> the_limit default_options"
    by code_simp+
  have 2: "run_home \<in> set (field_list (cat_tracks jane_catalog))"
    "prefix ''run'' (toLowerCase (track_title run_home))"
    "\<not> prefix ''run'' (toLowerCase (track_title midnight_run))"
    "artist_points ''run'' (toLowerCase (track_artist run_home))
       = artist_points ''run'' (toLowerCase (track_artist midnight_run))"
    "album_points ''run'' (case track_album run_home of None \<Rightarrow> [] | Some x \<Rightarrow> toLowerCase x)
       = album_points ''run'' (case track_album midnight_run of None \<Rightarrow> [] | Some x \<Rightarrow> toLowerCase x)"
    by code_simp+
  have 3: "1 < length (res_tracks (fst (search ''Run'' default_options (Some (buildIndex jane_catalog)))))"
    "res_tracks (fst (search ''Run'' default_options (Some (buildIndex jane_catalog)))) ! 1
       = midnight_run"
    by code_simp+
  from search_title_matches [OF h n, where t = midnight_run and c = jane_catalog
      and opts = default_options and a = run_home and b = midnight_run and k = 1] 1 2 3 h n
  show ?thesis by blast
qed


section \<open>What search leaves alone\<close>

text \<open>
  C10: \<open>search\<close> changes nothing but the \<open>score\<close> of entries of the index: with no
  index there is none afterwards, and otherwise the entries after the call are the
  entries before it up to their score, they refer to the same original records, and
  the artists are the same. The tracks and albums returned are original records that
  the entries of the index refer to; for an index built from a catalog they are
  records of that catalog, as the catalog holds them. A record has no \<open>score\<close>; only
  an entry has.
\<close>

theorem search_frame:
  "snd (search query opts None) = None
   \<and> (\<exists>ix'. snd (search query opts (Some ix)) = Some ix'
        \<and> map (\<lambda>e. e\<lparr>te_score := None\<rparr>) (idx_tracks ix')
            = map (\<lambda>e. e\<lparr>te_score := None\<rparr>) (idx_tracks ix)
        \<and> map (\<lambda>e. e\<lparr>ae_score := None\<rparr>) (idx_albums ix')
            = map (\<lambda>e. e\<lparr>ae_score := None\<rparr>) (idx_albums ix)
        \<and> map te_original (idx_tracks ix') = map te_original (idx_tracks ix)
        \<and> map ae_original (idx_albums ix') = map ae_original (idx_albums ix)
        \<and> idx_artists ix' = idx_artists ix)
   \<and> set (res_tracks (fst (search query opts (Some ix)))) \<subseteq> te_original ` set (idx_tracks ix)
   \<and> set (res_albums (fst (search query opts (Some ix)))) \<subseteq> ae_original ` set (idx_albums ix)
   \<and> set (res_tracks (fst (search query opts (Some (buildIndex c)))))
       \<subseteq> set (field_list (cat_tracks c))
   \<and> set (res_albums (fst (search query opts (Some (buildIndex c)))))
       \<subseteq> set (field_list (cat_albums c))"
  using search_index_frame [of query opts ix] search_results_original [of query opts ix]
    search_results_catalog [of query opts c]
  by (simp add: search_def)


section \<open>Rounding to a double\<close>

lemma powi_nat: "0 \<le> e \<Longrightarrow> (2::rat) powi e = 2 ^ nat e"
  by (simp add: power_int_def)

lemma powi_neg: "e \<le> 0 \<Longrightarrow> (2::rat) powi e = 1 / 2 ^ nat (- e)"
  by (cases "e = 0") (simp_all add: power_int_def power_inverse inverse_eq_divide field_simps)

lemma powi_pos: "0 < (2::rat) powi e"
  by simp

lemma powi_less_iff: "(2::rat) powi a < 2 powi b \<longleftrightarrow> a < b"
proof
  assume "(2::rat) powi a < 2 powi b"
  show "a < b"
  proof (rule ccontr)
    assume "\<not> a < b"
    then have "b \<le> a" by simp
    then have "(2::rat) powi b \<le> 2 powi a" by (intro power_int_increasing) simp_all
    with \<open>(2::rat) powi a < 2 powi b\<close> show False by simp
  qed
next
  assume "a < b"
  then show "(2::rat) powi a < 2 powi b" by (intro power_int_strict_increasing) simp_all
qed

lemma powi_split: "a \<le> b \<Longrightarrow> (2::rat) powi b = 2 ^ nat (b - a) * 2 powi a"
proof -
  assume "a \<le> b"
  have "(2::rat) powi b = 2 powi ((b - a) + a)" by simp
  also have "\<dots> = 2 powi (b - a) * 2 powi a" by (subst power_int_add) simp_all
  also have "(2::rat) powi (b - a) = 2 ^ nat (b - a)" using \<open>a \<le> b\<close> by (simp add: powi_nat)
  finally show ?thesis .
qed

lemma floor_log2_bounds:
  assumes "0 < q"
  shows "2 powi (floor_log2 q) \<le> q" and "q < 2 powi (floor_log2 q + 1)"
proof -
  have "2 powi (floor_log2 q) \<le> q \<and> q < 2 powi (floor_log2 q + 1)"
  proof (cases "1 \<le> q")
    case True
    let ?x = "\<lfloor>q\<rfloor>"
    have x: "0 < ?x" using True by simp
    from bitlen_bounds [OF x] have b: "2 ^ nat (bitlen ?x - 1) \<le> ?x" "?x < 2 ^ nat (bitlen ?x)"
      by simp_all
    have b1: "1 \<le> bitlen ?x" using x bitlen_eq_zero_iff [of ?x] bitlen_nonneg [of ?x] by linarith
    have e: "floor_log2 q = bitlen ?x - 1" using True by (simp add: floor_log2_def)
    have "(2::rat) powi (bitlen ?x - 1) = of_int (2 ^ nat (bitlen ?x - 1))"
      using b1 by (simp add: powi_nat)
    also have "\<dots> \<le> of_int ?x" using b(1) by (simp only: of_int_le_iff)
    also have "\<dots> \<le> q" by simp
    finally have lo: "2 powi (floor_log2 q) \<le> q" by (simp only: e)
    have "?x + 1 \<le> 2 ^ nat (bitlen ?x)" using b(2) by simp
    then have "(of_int (?x + 1) :: rat) \<le> of_int (2 ^ nat (bitlen ?x))"
      by (simp only: of_int_le_iff)
    moreover have "q < of_int (?x + 1)" by linarith
    ultimately have "q < of_int (2 ^ nat (bitlen ?x))" by linarith
    also have "(of_int (2 ^ nat (bitlen ?x)) :: rat) = 2 powi (bitlen ?x - 1 + 1)"
      using b1 by (simp add: powi_nat)
    finally have "q < 2 powi (floor_log2 q + 1)" by (simp only: e)
    with lo show ?thesis by simp
  next
    case False
    then have q1: "q < 1" by simp
    let ?r = "1 / q"
    let ?y = "\<lceil>?r\<rceil> - 1"
    have r1: "1 < ?r" using assms q1 by simp
    then have y: "0 < ?y" by linarith
    from bitlen_bounds [OF y] have b: "2 ^ nat (bitlen ?y - 1) \<le> ?y" "?y < 2 ^ nat (bitlen ?y)"
      by simp_all
    have b1: "1 \<le> bitlen ?y" using y bitlen_eq_zero_iff [of ?y] bitlen_nonneg [of ?y] by linarith
    have e: "floor_log2 q = - bitlen ?y" using False by (simp add: floor_log2_def)
    have "\<lceil>?r\<rceil> \<le> 2 ^ nat (bitlen ?y)" using b(2) by simp
    then have c: "(of_int \<lceil>?r\<rceil> :: rat) \<le> of_int (2 ^ nat (bitlen ?y))"
      by (simp only: of_int_le_iff)
    have "?r \<le> of_int \<lceil>?r\<rceil>" by (rule le_of_int_ceiling)
    also note c
    also have "(of_int (2 ^ nat (bitlen ?y)) :: rat) = 2 ^ nat (bitlen ?y)" by simp
    finally have "?r \<le> 2 ^ nat (bitlen ?y)" .
    then have "1 \<le> 2 ^ nat (bitlen ?y) * q" using assms by (simp add: field_simps)
    then have "1 / 2 ^ nat (bitlen ?y) \<le> q" by (simp add: field_simps)
    moreover have "(2::rat) powi (- bitlen ?y) = 1 / 2 ^ nat (bitlen ?y)"
      using b1 by (simp add: powi_neg)
    ultimately have lo: "2 powi (floor_log2 q) \<le> q" by (simp only: e)
    have d: "(of_int (2 ^ nat (bitlen ?y - 1)) :: rat) \<le> of_int ?y"
      using b(1) by (simp only: of_int_le_iff)
    have "(2::rat) ^ nat (bitlen ?y - 1) = of_int (2 ^ nat (bitlen ?y - 1))" by simp
    also note d
    also have "of_int ?y < ?r" by linarith
    finally have "(2::rat) ^ nat (bitlen ?y - 1) < ?r" .
    then have "2 ^ nat (bitlen ?y - 1) * q < 1" using assms by (simp add: field_simps)
    then have "q < 1 / 2 ^ nat (bitlen ?y - 1)" by (simp add: field_simps)
    moreover have "(2::rat) powi (- bitlen ?y + 1) = 1 / 2 ^ nat (bitlen ?y - 1)"
      using b1 powi_neg [of "- bitlen ?y + 1"] by simp
    ultimately have "q < 2 powi (floor_log2 q + 1)" by (simp only: e)
    with lo show ?thesis by simp
  qed
  then show "2 powi (floor_log2 q) \<le> q" and "q < 2 powi (floor_log2 q + 1)" by simp_all
qed

lemma floor_log2_ge: "0 < q \<Longrightarrow> 2 powi k \<le> q \<Longrightarrow> k \<le> floor_log2 q"
proof -
  assume "0 < q" "2 powi k \<le> q"
  with floor_log2_bounds(2) [of q] have "(2::rat) powi k < 2 powi (floor_log2 q + 1)" by simp
  then show ?thesis by (simp add: powi_less_iff)
qed

lemma floor_log2_less: "0 < q \<Longrightarrow> q < 2 powi k \<Longrightarrow> floor_log2 q < k"
proof -
  assume "0 < q" "q < 2 powi k"
  with floor_log2_bounds(1) [of q] have "(2::rat) powi (floor_log2 q) < 2 powi k" by simp
  then show ?thesis by (simp add: powi_less_iff)
qed

lemma round_even_cases: "round_even x = \<lfloor>x\<rfloor> \<or> round_even x = \<lfloor>x\<rfloor> + 1"
  by (simp add: round_even_def Let_def)

lemma round_even_ge: "of_int N \<le> x \<Longrightarrow> N \<le> round_even x"
proof -
  assume "of_int N \<le> x"
  then have "N \<le> \<lfloor>x\<rfloor>" by (simp add: le_floor_iff)
  with round_even_cases [of x] show ?thesis by linarith
qed

lemma round_even_less: "x < of_int N - 1 / 2 \<Longrightarrow> round_even x < N"
proof -
  assume a: "x < of_int N - 1 / 2"
  show ?thesis
  proof (cases "x - of_int \<lfloor>x\<rfloor> < 1 / 2")
    case True
    then have "round_even x = \<lfloor>x\<rfloor>" by (simp add: round_even_def Let_def)
    moreover have "\<lfloor>x\<rfloor> < N" using a by (simp add: floor_less_iff)
    ultimately show ?thesis by simp
  next
    case False
    then have "of_int \<lfloor>x\<rfloor> + 1 / 2 \<le> x" by simp
    with a have "(of_int \<lfloor>x\<rfloor> :: rat) + 1 < of_int N" by linarith
    then have "(of_int (\<lfloor>x\<rfloor> + 1) :: rat) < of_int N" by simp
    then have "\<lfloor>x\<rfloor> + 1 < N" by (simp only: of_int_less_iff)
    with round_even_cases [of x] show ?thesis by linarith
  qed
qed

text \<open>A quotient between two neighbouring multiples of the quantum.\<close>

lemma round_double_between:
  assumes "0 < q" and "of_int N * quantum q \<le> q" and "q < of_int M * quantum q - quantum q / 2"
  shows "of_int N * quantum q \<le> round_double q" and "round_double q \<le> of_int M * quantum q - quantum q"
proof -
  let ?u = "quantum q"
  have u: "0 < ?u" by (simp add: quantum_def)
  have r: "round_double q = of_int (round_even (q / ?u)) * ?u"
    using assms(1) by (simp add: round_double_def)
  have "of_int N \<le> q / ?u" using assms(2) u by (simp add: field_simps)
  then have "N \<le> round_even (q / ?u)" by (rule round_even_ge)
  then have "(of_int N :: rat) \<le> of_int (round_even (q / ?u))" by (simp only: of_int_le_iff)
  then show "of_int N * ?u \<le> round_double q"
    using u by (simp add: r)
  have "q / ?u < of_int M - 1 / 2" using assms(3) u by (simp add: field_simps)
  then have "round_even (q / ?u) < M" by (rule round_even_less)
  then have "round_even (q / ?u) \<le> M - 1" by simp
  then have "(of_int (round_even (q / ?u)) :: rat) \<le> of_int (M - 1)" by (simp only: of_int_le_iff)
  then have "of_int (round_even (q / ?u)) * ?u \<le> of_int (M - 1) * ?u"
    using u by (simp only: mult_le_cancel_right_pos)
  then show "round_double q \<le> of_int M * ?u - ?u"
    by (simp add: r algebra_simps)
qed


lemma quantum_pos: "0 < quantum q"
  by (simp add: quantum_def)

lemma double_multiple:
  assumes "is_double s" and "0 < s"
  shows "\<exists>R. s = of_int R * quantum s"
proof -
  from assms have "of_int (round_even (s / quantum s)) * quantum s = s"
    by (simp add: is_double_def round_double_def)
  then show ?thesis by metis
qed

lemma gap_60:
  assumes d: "is_double s" and half: "1 / 2 < s / 60" and top: "s < 60 * 2 ^ 50"
    and n: "s / 60 < of_int n + 1"
  shows "s / 60 < of_int n + 1 - quantum (s / 60) / 2"
proof -
  let ?q = "s / 60"
  let ?e = "floor_log2 ?q"
  have s0: "0 < s" and q0: "0 < ?q" using half by simp_all
  have "(2::rat) powi (- 1) \<le> ?q" using half by simp
  with q0 have e_lo: "- 1 \<le> ?e" by (rule floor_log2_ge)
  have "?q < 2 powi 50" using top by simp
  with q0 have e_hi: "?e < 50" by (rule floor_log2_less)
  let ?w = "(2::rat) powi (?e - 47)"
  have w0: "0 < ?w" by simp
  have u: "quantum ?q = 2 powi (?e - 52)" using e_lo by (simp add: quantum_def max_def)
  have "?w = 2 ^ nat 5 * 2 powi (?e - 52)"
    using powi_split [of "?e - 52" "?e - 47"] by simp
  then have wu: "?w = 32 * quantum ?q" by (simp add: u)
  \<comment> \<open>the dividend is a multiple of \<open>w\<close>\<close>
  have "(2::rat) powi (?e + 5) = 2 ^ nat 5 * 2 powi ?e"
    using powi_split [of ?e "?e + 5"] by simp
  also have "\<dots> = 32 * 2 powi ?e" by simp
  also have "\<dots> \<le> 32 * ?q" using floor_log2_bounds(1) [OF q0] by simp
  also have "\<dots> \<le> s" using s0 by simp
  finally have "?e + 5 \<le> floor_log2 s" using s0 by (intro floor_log2_ge)
  then have E: "?e - 47 \<le> floor_log2 s - 52" and E': "- 1022 \<le> floor_log2 s"
    using e_lo by simp_all
  have U: "quantum s = 2 powi (floor_log2 s - 52)" using E' by (simp add: quantum_def max_def)
  from double_multiple [OF d s0] obtain R where R: "s = of_int R * quantum s" by blast
  have "quantum s = 2 ^ nat (floor_log2 s - 52 - (?e - 47)) * ?w"
    unfolding U using E by (rule powi_split)
  with R have sA: "s = of_int (R * 2 ^ nat (floor_log2 s - 52 - (?e - 47))) * ?w"
    by simp
  \<comment> \<open>so is the next multiple of 60\<close>
  have "(2::rat) powi 2 = 2 ^ nat (2 - (?e - 47)) * ?w"
    using e_hi by (intro powi_split) simp
  then have four: "(4::rat) = 2 ^ nat (2 - (?e - 47)) * ?w" by simp
  have "60 * (of_int n + 1) = of_int (15 * (n + 1)) * (4::rat)" by simp
  also have "\<dots> = of_int (15 * (n + 1) * 2 ^ nat (2 - (?e - 47))) * ?w"
    by (subst four) simp
  finally have kB: "60 * (of_int n + 1) = of_int (15 * (n + 1) * 2 ^ nat (2 - (?e - 47))) * ?w" .
  let ?A = "R * 2 ^ nat (floor_log2 s - 52 - (?e - 47))"
  let ?B = "15 * (n + 1) * 2 ^ nat (2 - (?e - 47))"
  have "s < 60 * (of_int n + 1)" using n by simp
  then have "of_int ?A * ?w < of_int ?B * ?w" using sA kB by simp
  then have "(of_int ?A :: rat) < of_int ?B" using w0 by (simp only: mult_less_cancel_right_pos)
  then have "?A < ?B" by (simp only: of_int_less_iff)
  then have "?A + 1 \<le> ?B" by simp
  then have "(of_int (?A + 1) :: rat) \<le> of_int ?B" by (simp only: of_int_le_iff)
  then have "of_int (?A + 1) * ?w \<le> of_int ?B * ?w" using w0 by (simp only: mult_le_cancel_right_pos)
  then have "of_int ?A * ?w + ?w \<le> of_int ?B * ?w" by (simp add: algebra_simps)
  then have "s + ?w \<le> 60 * (of_int n + 1)" using sA kB by simp
  then have "s + 32 * quantum ?q \<le> 60 * (of_int n + 1)" by (simp only: wu)
  with quantum_pos [of ?q] show ?thesis by (simp add: field_simps)
qed

lemma floor_round_double_60:
  assumes d: "is_double s" and s0: "0 < s" and top: "s < 60 * 2 ^ 50"
  shows "\<lfloor>round_double (s / 60)\<rfloor> = \<lfloor>s / 60\<rfloor>"
proof -
  let ?q = "s / 60"
  let ?n = "\<lfloor>?q\<rfloor>"
  let ?u = "quantum ?q"
  have q0: "0 < ?q" using s0 by simp
  have "?q < 2 powi 50" using top by simp
  with q0 have e_hi: "floor_log2 ?q < 50" by (rule floor_log2_less)
  let ?j = "max (floor_log2 ?q) (- 1022) - 52"
  have j: "?j < 0" using e_hi by simp
  have u: "?u = 1 / 2 ^ nat (- ?j)" unfolding quantum_def using j by (intro powi_neg) simp
  have u0: "0 < ?u" by (rule quantum_pos)
  have "?u < 2 powi 0" unfolding quantum_def using j by (simp only: powi_less_iff)
  then have u1: "?u < 1" by simp
  have int_mult: "of_int (k * 2 ^ nat (- ?j)) * ?u = of_int k" for k
    by (simp add: u)
  have gap: "?q < of_int ?n + 1 - ?u / 2"
  proof (cases "1 / 2 < ?q")
    case True
    have "?q < of_int ?n + 1" by linarith
    with d True top show ?thesis by (rule gap_60)
  next
    case False
    then have "?q \<le> 1 / 2" by simp
    moreover have "0 \<le> ?n" using q0 by simp
    ultimately show ?thesis using u1 by linarith
  qed
  have lo: "of_int (?n * 2 ^ nat (- ?j)) * ?u \<le> ?q"
    by (simp only: int_mult of_int_floor_le)
  have hi: "?q < of_int ((?n + 1) * 2 ^ nat (- ?j)) * ?u - ?u / 2"
    using gap by (simp only: int_mult)
  from round_double_between [OF q0 lo hi]
  have "of_int ?n \<le> round_double ?q" and "round_double ?q \<le> of_int (?n + 1) - ?u"
    by (simp_all only: int_mult)
  with u0 have "of_int ?n \<le> round_double ?q" and "round_double ?q < of_int ?n + 1"
    by simp_all
  then show ?thesis by (rule floor_unique)
qed


section \<open>Durations\<close>

lemma floor_div_60:
  fixes s :: rat
  shows "\<lfloor>s / 60\<rfloor> = \<lfloor>s\<rfloor> div 60"
proof (rule floor_unique)
  have "60 * (\<lfloor>s\<rfloor> div 60) \<le> \<lfloor>s\<rfloor>" by simp
  then have "(of_int (60 * (\<lfloor>s\<rfloor> div 60)) :: rat) \<le> of_int \<lfloor>s\<rfloor>"
    by (simp only: of_int_le_iff)
  also have "\<dots> \<le> s" by simp
  finally show "of_int (\<lfloor>s\<rfloor> div 60) \<le> s / 60" by simp
  have "\<lfloor>s\<rfloor> + 1 \<le> 60 * (\<lfloor>s\<rfloor> div 60 + 1)"
    by presburger
  then have "(of_int (\<lfloor>s\<rfloor> + 1) :: rat) \<le> of_int (60 * (\<lfloor>s\<rfloor> div 60 + 1))"
    by (simp only: of_int_le_iff)
  moreover have "s < of_int (\<lfloor>s\<rfloor> + 1)" by linarith
  ultimately have "s < of_int (60 * (\<lfloor>s\<rfloor> div 60 + 1))" by linarith
  then show "s / 60 < of_int (\<lfloor>s\<rfloor> div 60) + 1" by simp
qed

lemma js_rem_pos:
  assumes "0 < s"
  shows "\<lfloor>js_rem s 60\<rfloor> = \<lfloor>s\<rfloor> mod 60"
proof -
  have "0 \<le> s / 60" using assms by simp
  then have "js_rem s 60 = s - of_int (60 * (\<lfloor>s\<rfloor> div 60))"
    by (simp add: js_rem_def floor_div_60)
  then have "\<lfloor>js_rem s 60\<rfloor> = \<lfloor>s\<rfloor> - 60 * (\<lfloor>s\<rfloor> div 60)"
    by (simp only: floor_diff_of_int)
  then show ?thesis
    by (simp add: minus_mult_div_eq_mod)
qed

lemma digit_char_0: "digit_char 0 = CHR ''0''"
  by code_simp

lemma digits_of_digit: "n < 10 \<Longrightarrow> digits_of n = [digit_char n]"
  by (simp add: digits_of.simps)

lemma digits_of_two: "10 \<le> n \<Longrightarrow> n < 100 \<Longrightarrow> digits_of n = two_digits n"
  by (subst digits_of.simps) (simp add: two_digits_def digits_of_digit)

lemma padStart_two_digits:
  "0 \<le> n \<Longrightarrow> n < 60 \<Longrightarrow> padStart 2 (CHR ''0'') (digits_of n) = two_digits n"
proof (cases "n < 10")
  case True
  assume "0 \<le> n"
  with True show ?thesis
    by (simp add: padStart_def digits_of_digit two_digits_def digit_char_0)
next
  case False
  assume "n < 60"
  with False have "digits_of n = two_digits n" by (simp add: digits_of_two)
  then show ?thesis by (simp add: padStart_def two_digits_def)
qed

lemma Number_toString_small:
  "0 \<le> i \<Longrightarrow> i < 2 ^ 53 \<Longrightarrow> Number_toString i = Some (digits_of i)"
  by (simp add: Number_toString_def)

lemma formatDuration_pos:
  assumes d: "is_double s" and s0: "0 < s" and top: "s < 60 * 2 ^ 50"
  shows "formatDuration (Num s) = Some (minutes_seconds s)"
proof -
  have fl: "\<lfloor>round_double (s / 60)\<rfloor> = \<lfloor>s / 60\<rfloor>"
    using d s0 top by (rule floor_round_double_60)
  have "s / 60 < 2 ^ 50" using top by simp
  then have "s / 60 < of_int (2 ^ 50)" by simp
  then have "\<lfloor>s / 60\<rfloor> < 2 ^ 50" by (simp only: floor_less_iff)
  then have "\<lfloor>s / 60\<rfloor> < 2 ^ 53" by simp
  moreover have "0 \<le> \<lfloor>s / 60\<rfloor>" using s0 by simp
  ultimately have m: "Number_toString \<lfloor>s / 60\<rfloor> = Some (digits_of \<lfloor>s / 60\<rfloor>)"
    by (intro Number_toString_small)
  have "\<lfloor>s\<rfloor> mod 60 < 60" by simp
  then have "\<lfloor>s\<rfloor> mod 60 < 2 ^ 53" by simp
  then have "Number_toString (\<lfloor>s\<rfloor> mod 60) = Some (digits_of (\<lfloor>s\<rfloor> mod 60))"
    by (intro Number_toString_small) simp_all
  then have r: "Number_toString \<lfloor>js_rem s 60\<rfloor> = Some (digits_of (\<lfloor>s\<rfloor> mod 60))"
    using s0 by (simp only: js_rem_pos)
  have p: "padStart 2 (CHR ''0'') (digits_of (\<lfloor>s\<rfloor> mod 60)) = two_digits (\<lfloor>s\<rfloor> mod 60)"
    by (rule padStart_two_digits) simp_all
  have "formatDuration (Num s) =
        (case (Number_toString \<lfloor>round_double (s / 60)\<rfloor>, Number_toString \<lfloor>js_rem s 60\<rfloor>) of
           (Some m, Some t) \<Rightarrow> Some (m @ '':'' @ padStart 2 (CHR ''0'') t)
         | _ \<Rightarrow> None)"
    using d s0 by (simp add: formatDuration_def Let_def)
  then show ?thesis
    by (simp add: fl m r p minutes_seconds_def)
qed

text \<open>
  C9, against the claim as stated: 67553994410557496 is a double, and its quotient
  by 60 lies nearer to the double above it than to the double below: the quotient
  of the doubles is 1125899906842625, one more than the whole minutes.
\<close>

theorem formatDuration_counterexample:
  "is_double 67553994410557496
   \<and> formatDuration (Num 67553994410557496) = Some ''1125899906842625:56''
   \<and> minutes_seconds 67553994410557496 = ''1125899906842624:56''"
  by code_simp

text \<open>
  C9, amended: \<open>formatDuration\<close> gives \<open>0:00\<close> for 0, for \<open>undefined\<close> and for \<open>NaN\<close>, and
  \<open>2:05\<close> for 125; for every positive double below \<open>60 * 2^50\<close> seconds it gives the
  whole minutes, a colon, and the whole seconds that remain, as two digits.
\<close>

theorem formatDuration_cases:
  "formatDuration (Num 0) = Some ''0:00''
   \<and> formatDuration (Num 125) = Some ''2:05''
   \<and> formatDuration Undefined = Some ''0:00''
   \<and> formatDuration NaN = Some ''0:00''
   \<and> (is_double s \<and> 0 < s \<and> s < 60 * 2 ^ 50 \<longrightarrow>
        formatDuration (Num s) = Some (minutes_seconds s))"
proof -
  have "formatDuration (Num 125) = Some ''2:05''" by code_simp
  moreover have "formatDuration (Num 0) = Some ''0:00''" by code_simp
  ultimately show ?thesis
    by (simp add: formatDuration_pos) (simp add: formatDuration_def)
qed

theorem formatDuration_cases_witness:
  "is_double (251 / 2) \<and> (0::rat) < 251 / 2 \<and> (251 / 2 :: rat) < 60 * 2 ^ 50
   \<and> formatDuration (Num (251 / 2)) = Some (minutes_seconds (251 / 2))
   \<and> minutes_seconds (251 / 2) = ''2:05''"
proof -
  have "minutes_seconds (251 / 2) = ''2:05''" by code_simp
  moreover have "is_double (251 / 2)" by code_simp
  ultimately show ?thesis
    using formatDuration_cases [of "251 / 2"] by simp
qed


section \<open>Initialisation\<close>

text \<open>
  C7, against the claim as stated: when the catalog loads and the links do not,
  \<open>init\<close> returns \<open>true\<close>.
\<close>

theorem init_counterexample:
  "fst (init links_failed fresh_app) \<and> loadJSON (env_links links_failed) = None"
  by code_simp


lemma getCache_None:
  "fst (getCache now item) = None \<Longrightarrow> \<forall>d. snd (getCache now item) \<noteq> Item d"
  by (auto simp: getCache_def split: storage_item.splits if_splits)

text \<open>
  C7, amended: on a first call of \<open>init\<close> with no valid cache entry, for every
  outcome of the two fetches, \<open>init\<close> reports success if and only if the catalog
  loaded, whether or not the links did; the session storage holds a cache entry
  afterwards if and only if both loaded and the storage took the write, and the entry
  then is the pair that was loaded; the catalog and the links of the module are what
  loaded, each on its own; the index is built when the catalog loaded, and the module
  is marked initialised.
\<close>

theorem init_fresh:
  assumes "\<not> isInitialized a" and "fst (getCache (env_now e) (sessionStorage a)) = None"
  shows "(fst (init e a) \<longleftrightarrow> loadJSON (env_catalog e) \<noteq> None)
    \<and> catalog (snd (init e a)) = loadJSON (env_catalog e)
    \<and> links (snd (init e a)) = loadJSON (env_links e)
    \<and> ((\<exists>d. sessionStorage (snd (init e a)) = Item d) \<longleftrightarrow>
         loadJSON (env_catalog e) \<noteq> None \<and> loadJSON (env_links e) \<noteq> None \<and> env_storage_ok e)
    \<and> (\<forall>c l. loadJSON (env_catalog e) = Some c \<and> loadJSON (env_links e) = Some l
              \<and> env_storage_ok e \<longrightarrow>
          sessionStorage (snd (init e a)) =
            Item \<lparr>cached_catalog = Some c, cached_links = Some l,
                  cached_timestamp = env_now_set e\<rparr>)
    \<and> app_searchIndex (snd (init e a)) =
         (case loadJSON (env_catalog e) of Some c \<Rightarrow> Some (buildIndex c)
          | None \<Rightarrow> app_searchIndex a)
    \<and> isInitialized (snd (init e a))"
proof -
  obtain hit item where g: "getCache (env_now e) (sessionStorage a) = (hit, item)"
    by (cases "getCache (env_now e) (sessionStorage a)")
  with assms(2) have hit: "hit = None" by simp
  have item: "\<forall>d. item \<noteq> Item d"
    using getCache_None [OF assms(2)] g by simp
  show ?thesis
    using assms(1) g hit item
    by (cases "loadJSON (env_catalog e)"; cases "loadJSON (env_links e)")
      (auto simp: init_def Let_def setCache_def)
qed


theorem init_fresh_witness:
  "\<not> isInitialized fresh_app
   \<and> fst (getCache (env_now both_loaded) (sessionStorage fresh_app)) = None
   \<and> fst (init both_loaded fresh_app)
   \<and> catalog (snd (init both_loaded fresh_app)) = Some jane_catalog
   \<and> (\<exists>d. sessionStorage (snd (init both_loaded fresh_app)) = Item d)
   \<and> \<not> isInitialized fresh_app
   \<and> fst (getCache (env_now links_failed) (sessionStorage fresh_app)) = None
   \<and> links (snd (init links_failed fresh_app)) = None
   \<and> \<not> (\<exists>d. sessionStorage (snd (init links_failed fresh_app)) = Item d)"
proof -
  have h: "\<not> isInitialized fresh_app"
    "fst (getCache (env_now both_loaded) (sessionStorage fresh_app)) = None"
    "fst (getCache (env_now links_failed) (sessionStorage fresh_app)) = None"
    by code_simp+
  have l: "loadJSON (env_catalog both_loaded) = Some jane_catalog"
    "loadJSON (env_links both_loaded) \<noteq> None" "env_storage_ok both_loaded"
    "loadJSON (env_links links_failed) = None"
    by (simp_all add: both_loaded_def links_failed_def loadJSON_def)
  from init_fresh [OF h(1) h(2)] init_fresh [OF h(1) h(3)] h l
  show ?thesis by simp
qed


section \<open>Highlighting\<close>

lemma toLowerChar_idem: "toLowerChar (toLowerChar c) = toLowerChar c"
proof -
  have "of_char c < (256::nat)" by simp
  then show ?thesis
    by (auto simp add: toLowerChar_def Let_def)
qed

lemma toLowerCase_idem: "toLowerCase (toLowerCase s) = toLowerCase s"
  by (simp add: toLowerCase_def toLowerChar_idem)

lemma regexSpecial_backslash: "regexSpecial backslash"
  by (simp add: regexSpecial_def)

lemma literal_pattern_plain:
  "\<not> regexSpecial c \<Longrightarrow> literal_pattern (c # rest) = map_option ((#) c) (literal_pattern rest)"
  using regexSpecial_backslash by (cases rest) auto

lemma literal_pattern_escaped:
  "regexSpecial c \<Longrightarrow>
   literal_pattern (backslash # c # rest) = map_option ((#) c) (literal_pattern rest)"
  by simp

lemma literal_pattern_escapeRegex: "literal_pattern (escapeRegex q) = Some q"
proof (induction q)
  case Nil
  then show ?case by (simp add: escapeRegex_def)
next
  case (Cons c q)
  have IH: "literal_pattern (escapeRegex q) = Some q" by fact
  show ?case
  proof (cases "regexSpecial c")
    case True
    then have "escapeRegex (c # q) = backslash # c # escapeRegex q"
      by (simp add: escapeRegex_def)
    with True IH show ?thesis by (simp add: literal_pattern_escaped del: literal_pattern.simps)
  next
    case False
    then have "escapeRegex (c # q) = c # escapeRegex q"
      by (simp add: escapeRegex_def)
    with False IH show ?thesis by (simp add: literal_pattern_plain del: literal_pattern.simps)
  qed
qed

lemma highlight_query:
  "query \<noteq> [] \<Longrightarrow>
   highlight text query = Some (render (segments (toLowerCase (trim query)) (escapeHtml text)))"
  by (simp add: highlight_def Let_def literal_pattern_escapeRegex)

lemma text_of_segments: "text_of (segments lit s) = s"
proof (induction lit s rule: segments.induct)
  case (1 lit s)
  show ?case
  proof (cases "s = []")
    case True
    then show ?thesis by (subst segments.simps) (simp add: text_of_def)
  next
    case False
    note ne = this
    show ?thesis
    proof (cases "lit = []")
      case True
      with ne 1(1) have "text_of (segments lit (tl s)) = tl s" by simp
      with ne True show ?thesis
        by (subst segments.simps) (simp add: text_of_def)
    next
      case False
      note lne = this
      show ?thesis
      proof (cases "ci_match_at lit s")
        case True
        with ne lne 1(2) have "text_of (segments lit (drop (length lit) s)) = drop (length lit) s"
          by simp
        with ne lne True show ?thesis
          by (subst segments.simps) (simp add: text_of_def)
      next
        case False
        with ne lne 1(3) have "text_of (segments lit (tl s)) = tl s" by simp
        with ne lne False show ?thesis
          by (subst segments.simps) (simp add: text_of_def)
      qed
    qed
  qed
qed

lemma marks_of_segments:
  "Mark m \<in> set (segments lit s) \<Longrightarrow> length m = length lit \<and> toLowerCase m = toLowerCase lit"
proof (induction lit s rule: segments.induct)
  case (1 lit s)
  from "1.prems" show ?case
    apply (subst (asm) segments.simps)
    apply (auto simp: ci_match_at_def toLowerCase_Nil split: if_splits dest: "1.IH")
    done
qed

lemma plain_of_segments:
  "lit \<noteq> [] \<Longrightarrow> segments lit s = A @ Plain c # B \<Longrightarrow> \<not> ci_match_at lit (c # text_of B)"
proof (induction lit s arbitrary: A rule: segments.induct)
  case (1 lit s)
  have "s = [] \<Longrightarrow> segments lit s = []"
    using "1.prems"(1) by (subst segments.simps) simp
  with "1.prems"(2) have ne: "s \<noteq> []" by auto
  show ?case
  proof (cases "ci_match_at lit s")
    case True
    with ne "1.prems"(1) have e: "segments lit s = Mark (take (length lit) s) # segments lit (drop (length lit) s)"
      by (subst segments.simps) simp
    with "1.prems"(2) obtain A' where "A = Mark (take (length lit) s) # A'"
      "segments lit (drop (length lit) s) = A' @ Plain c # B"
      by (cases A) auto
    with "1.IH"(2) [OF ne "1.prems"(1) True "1.prems"(1)] show ?thesis by blast
  next
    case False
    with ne "1.prems"(1) have e: "segments lit s = Plain (hd s) # segments lit (tl s)"
      by (subst segments.simps) simp
    show ?thesis
    proof (cases A)
      case Nil
      with e "1.prems"(2) have c: "c = hd s" and B: "segments lit (tl s) = B" by auto
      have "text_of B = tl s" using text_of_segments [of lit "tl s"] by (simp only: B)
      with c have "c # text_of B = s" using ne by simp
      with False show ?thesis by simp
    next
      case (Cons x A')
      with e "1.prems"(2) have "segments lit (tl s) = A' @ Plain c # B" by auto
      with "1.IH"(3) [OF ne "1.prems"(1) False "1.prems"(1)] show ?thesis by blast
    qed
  qed
qed

lemma escapeHtml_plain: "\<forall>c\<in>set s. \<not> htmlSpecial c \<Longrightarrow> escapeHtml s = s"
  by (induction s) (auto simp: escapeHtml_def escapeHtmlChar_def htmlSpecial_def)


lemma segments_Nil: "segments [] [] = [Mark []]"
  by (subst segments.simps) simp

text \<open>
  C8, against the claim as stated: escaping is not idempotent. The escaped form of
  \<open>Tom & Jerry\<close> contains an ampersand, which \<open>highlight\<close> escapes again. And of two
  occurrences that overlap, only the first is wrapped.
\<close>

theorem highlight_escaped_counterexample:
  "highlight (escapeHtml ''Tom & Jerry'') [] \<noteq> Some (escapeHtml ''Tom & Jerry'')
   \<and> highlight ''aaa'' ''aa'' = Some ''<mark>aa</mark>a''"
  by code_simp


text \<open>
  C8, amended: for every text, \<open>highlight\<close> with an empty query returns the escaped
  text, with no marker; applied to the escaped text of a text that holds no
  ampersand, angle bracket or no-break space it returns that escaped text; and for a
  query that is not empty, with \<open>q\<close> its trimmed, lower-cased form, the pattern built
  from the regex-escaped \<open>q\<close> is accepted and matches \<open>q\<close> literally, the result is
  the escaped text cut into plain characters and marked pieces, each marked piece
  equals \<open>q\<close> up to case, and when \<open>q\<close> is not empty no plain character starts an
  occurrence of \<open>q\<close>: scanning from the left, every occurrence that does not overlap
  an earlier marked one is marked.
\<close>

theorem highlight_marks:
  "highlight s [] = Some (escapeHtml s)
   \<and> ((\<forall>c\<in>set s. \<not> htmlSpecial c) \<longrightarrow> highlight (escapeHtml s) [] = Some (escapeHtml s))
   \<and> (query \<noteq> [] \<and> toLowerCase (trim query) = q \<longrightarrow>
        highlight s query = Some (render (segments q (escapeHtml s)))
        \<and> text_of (segments q (escapeHtml s)) = escapeHtml s
        \<and> (\<forall>m. Mark m \<in> set (segments q (escapeHtml s)) \<longrightarrow>
               length m = length q \<and> toLowerCase m = q)
        \<and> (q \<noteq> [] \<longrightarrow>
             (\<forall>A c B. segments q (escapeHtml s) = A @ Plain c # B \<longrightarrow>
                \<not> ci_match_at q (c # text_of B))))"
proof (intro conjI impI allI)
  show "highlight s [] = Some (escapeHtml s)"
    by (simp add: highlight_def)
  show "highlight (escapeHtml s) [] = Some (escapeHtml s)" if "\<forall>c\<in>set s. \<not> htmlSpecial c"
    using that by (simp add: highlight_def escapeHtml_plain)
next
  assume a: "query \<noteq> [] \<and> toLowerCase (trim query) = q"
  then show "highlight s query = Some (render (segments q (escapeHtml s)))"
    using highlight_query [of query s] by simp
  show "text_of (segments q (escapeHtml s)) = escapeHtml s"
    by (rule text_of_segments)
  have q: "toLowerCase q = q" using a toLowerCase_idem [of "trim query"] by simp
  {
    fix m assume "Mark m \<in> set (segments q (escapeHtml s))"
    from marks_of_segments [OF this] q
    show "length m = length q" "toLowerCase m = q" by simp_all
  }
  {
    fix A c B assume "q \<noteq> []" "segments q (escapeHtml s) = A @ Plain c # B"
    then show "\<not> ci_match_at q (c # text_of B)" by (rule plain_of_segments)
  }
qed

theorem highlight_marks_witness:
  "list_all (\<lambda>c. \<not> htmlSpecial c) ''Midnight Run''
   \<and> highlight (escapeHtml ''Midnight Run'') [] = Some (escapeHtml ''Midnight Run'')
   \<and> '' RUN '' \<noteq> [] \<and> toLowerCase (trim '' RUN '') = ''run'' \<and> ''run'' \<noteq> []
   \<and> highlight ''Midnight Run'' '' RUN '' = Some (render (segments ''run'' (escapeHtml ''Midnight Run'')))
   \<and> render (segments ''run'' (escapeHtml ''Midnight Run'')) = ''Midnight <mark>Run</mark>''"
proof -
  have 1: "\<forall>c\<in>set ''Midnight Run''. \<not> htmlSpecial c" by code_simp
  have 2: "toLowerCase (trim '' RUN '') = ''run''" by code_simp
  have 3: "render (segments ''run'' (escapeHtml ''Midnight Run'')) = ''Midnight <mark>Run</mark>''"
    by code_simp
  have l: "list_all (\<lambda>c. \<not> htmlSpecial c) ''Midnight Run''"
    using 1 by (simp only: list_all_iff)
  from highlight_marks [of "''Midnight Run''" "'' RUN ''" "''run''"] 1 2 3 l
  show ?thesis by simp
qed



section \<open>Debouncing\<close>
















text \<open>
  A delay of \<open>2^31\<close> arms a timer that is due at once: the call is not held back,
  and a call that follows 50 milliseconds later finds nothing to cancel.
\<close>

lemma long_delay_runs_at_once:
  "map (\<lambda>(callback, res, query). (callback, query))
     (callback_runs (elapse 200 (do_call (''ru'', 2, default_options)
        (elapse 50 (do_call (''r'', 1, long_delay) idle_page)))))
   = [(1, ''r''), (2, ''ru'')]"
  by code_simp



end
